theory Spec2Isabelle
  imports Complex_Main "HOL-Library.AList"
begin

section \<open>JavaScript values\<close>

text \<open>
  A JavaScript number is a rational, an infinity or NaN. The code below only compares
  numbers, so no rounding of doubles takes place; \<open>+0\<close> and \<open>-0\<close> are one value.
\<close>

datatype jsnum = NaN | NegInf | Fin rat | PosInf

fun num_lt :: "jsnum \<Rightarrow> jsnum \<Rightarrow> bool" where
  "num_lt NaN _ = False"
| "num_lt _ NaN = False"
| "num_lt PosInf _ = False"
| "num_lt _ NegInf = False"
| "num_lt NegInf _ = True"
| "num_lt _ PosInf = True"
| "num_lt (Fin a) (Fin b) = (a < b)"

text \<open>
  Values are possibly infinite trees: an object or array that refers to itself is the
  infinite unfolding of that reference. An object is the list of the enumerable
  properties that \<open>for ... in\<close> finds, in that order; what a read of any other name finds
  on its prototype chain (the members of \<open>Object.prototype\<close>, for a plain object) is
  given by the environment below. A \<open>Date\<close> is its time value, and a function is known
  by a name.
\<close>

codatatype jsval =
    VUndefined
  | VNull
  | VBool bool
  | VNum jsnum
  | VStr string
  | VDate jsnum
  | VFunction string
  | VArr "jsval list"
  | VObj "(string \<times> jsval) list"

datatype js_type = TyUndefined | TyObject | TyBoolean | TyNumber | TyString | TyFunction

definition typeof :: "jsval \<Rightarrow> js_type" where
  "typeof v = (case v of VUndefined \<Rightarrow> TyUndefined | VBool _ \<Rightarrow> TyBoolean
     | VNum _ \<Rightarrow> TyNumber | VStr _ \<Rightarrow> TyString | VFunction _ \<Rightarrow> TyFunction
     | _ \<Rightarrow> TyObject)"

definition truthy :: "jsval \<Rightarrow> bool" where
  "truthy v = (case v of VUndefined \<Rightarrow> False | VNull \<Rightarrow> False | VBool b \<Rightarrow> b
     | VNum n \<Rightarrow> n \<noteq> NaN \<and> n \<noteq> Fin 0 | VStr s \<Rightarrow> s \<noteq> [] | _ \<Rightarrow> True)"

definition is_undefined :: "jsval \<Rightarrow> bool" where
  "is_undefined v = (case v of VUndefined \<Rightarrow> True | _ \<Rightarrow> False)"

definition isArray :: "jsval \<Rightarrow> bool" where
  "isArray v = (case v of VArr _ \<Rightarrow> True | _ \<Rightarrow> False)"

text \<open>\<open>isObject\<close>: \<open>typeof value === "object" && value !== null && !Array.isArray(value)\<close>.\<close>

definition isObject :: "jsval \<Rightarrow> bool" where
  "isObject v = (typeof v = TyObject \<and> (case v of VNull \<Rightarrow> False | _ \<Rightarrow> True) \<and> \<not> isArray v)"

definition props :: "jsval \<Rightarrow> (string \<times> jsval) list" where
  "props v = (case v of VObj ps \<Rightarrow> ps | _ \<Rightarrow> [])"



section \<open>Errors and validation results\<close>

datatype js_error =
    Error string
  | TypeError string
  | RangeError string
  | SyntaxError string
  | InvalidArgument string

text \<open>
  What a \<open>throw\<close> carries: an instance of \<open>Error\<close>, or any other value, kept as the
  string that \<open>String\<close> makes of it.
\<close>

datatype thrown = ThrowError js_error | ThrowOther string

text \<open>
  Modelled from the spec: the type \<open>StringConvertible\<close> comes from \<open>LazyString\<close>, which is
  not among the sources; an error is "string-described". Here it is a primitive string
  (falsy when empty) or an object with a \<open>toString\<close> method (always truthy), kept as the
  string it converts to.
\<close>

datatype strconv = SStr string | SObj string

type_synonym err = "strconv option"

definition String_of :: "strconv \<Rightarrow> string" where
  "String_of e = (case e of SStr s \<Rightarrow> s | SObj s \<Rightarrow> s)"

definition truthy_err :: "err \<Rightarrow> bool" where
  "truthy_err e = (case e of None \<Rightarrow> False | Some (SStr s) \<Rightarrow> s \<noteq> [] | Some (SObj _) \<Rightarrow> True)"

text \<open>\<open>a || b\<close> on two optional messages.\<close>

definition err_or :: "err \<Rightarrow> err \<Rightarrow> err" where
  "err_or a b = (if truthy_err a then a else b)"

definition MAX_RECURSE :: int where
  "MAX_RECURSE = 100"

definition DEFAULT_ERROR :: string where
  "DEFAULT_ERROR = ''ObjectReader error''"

text \<open>\<open>ValidationResult\<close>: \<open>{ value, error }\<close>; an absent property is \<open>undefined\<close>.\<close>

record vresult =
  rvalue :: jsval
  rerror :: err

definition has_error :: "vresult \<Rightarrow> bool" where
  "has_error v = truthy_err (rerror v)"

text \<open>
  \<open>_makeError(rule, fallback)\<close>, given the \<open>err\<close> properties of its two arguments:
  \<open>{ error: rule.err || fallback?.err || DEFAULT_ERROR }\<close>.
\<close>

definition makeError :: "err \<Rightarrow> err \<Rightarrow> vresult" where
  "makeError rule_err fallback_err =
     \<lparr>rvalue = VUndefined,
      rerror = err_or (err_or rule_err fallback_err) (Some (SStr DEFAULT_ERROR))\<rparr>"

section \<open>Schema rules\<close>

text \<open>
  \<open>{ length: number; err? }\<close>, \<open>{ value: number; err? }\<close> and \<open>{ date: Date; err? }\<close>:
  a bound and an optional message.
\<close>

record limit =
  bound :: jsnum
  limit_err :: err

text \<open>
  A flag of type \<open>true | { err? }\<close> is \<open>None\<close> when absent and \<open>Some\<close> of its
  optional message when set. A regular expression is the predicate its \<open>test\<close> method
  computes.
\<close>

record boolean_rule =
  b_true :: bool
  b_err :: err

record string_rule =
  s_err :: err
  s_match :: "(string \<Rightarrow> bool) option"
  s_required :: "err option"
  s_min :: "limit option"
  s_max :: "limit option"

record number_rule =
  n_err :: err
  n_integer :: "err option"
  n_positive :: "err option"
  n_nonzero :: "err option"
  n_min :: "limit option"
  n_max :: "limit option"

record date_rule =
  d_err :: err
  d_min :: "limit option"
  d_max :: "limit option"

record value_rule =
  v_match :: "jsval list option"
  v_err :: err

record simple_rule =
  r_value :: "value_rule option"
  r_boolean :: "boolean_rule option"
  r_string :: "string_rule option"
  r_number :: "number_rule option"
  r_date :: "date_rule option"

text \<open>
  \<open>SchemaRule\<close>: the \<open>optional\<close> flag and one of the five alternatives. A custom
  validator is a reference into a table of functions. Rules are possibly infinite
  trees as well, so that a schema which refers to itself is a value of the type.
\<close>

codatatype rule = Rule (optional: bool) (body: rule_body)
and rule_body =
    Validate nat
  | ObjectRule "(string \<times> rule) list option" err
  | ArrayRule "rule option" err "limit option" "limit option"
  | RecordRule "rule option" err
  | SimpleRule simple_rule

type_synonym schema = "(string \<times> rule) list"

text \<open>The rule \<open>{}\<close>: no constraint at all.\<close>

definition empty_simple :: simple_rule where
  "empty_simple = \<lparr>r_value = None, r_boolean = None, r_string = None, r_number = None, r_date = None\<rparr>"

definition empty_rule :: rule where
  "empty_rule = Rule False (SimpleRule empty_simple)"

datatype field = FName string | FIndex nat

text \<open>\<open>field || "_"\<close>: the empty name and the index 0 are falsy.\<close>

definition field_or_underscore :: "field \<Rightarrow> field" where
  "field_or_underscore f =
     (case f of FName s \<Rightarrow> if s = [] then FName ''_'' else f
      | FIndex i \<Rightarrow> if i = 0 then FName ''_'' else f)"

type_synonym validator = "jsval \<Rightarrow> field \<Rightarrow> thrown + vresult"

text \<open>
  What the code takes from its surroundings: the functions that \<open>validate\<close> properties
  refer to (\<open>None\<close>: the property is not a function), what the prototype chain of an
  object has under a name that is not among its enumerable properties (\<open>None\<close>:
  nothing), \<open>parseFloat\<close>, the time value of \<open>new Date(string)\<close>, \<open>JSON.parse\<close> (which
  returns a value or throws), and the identity of two values that are not primitive.
\<close>

record env =
  validators :: "nat \<Rightarrow> validator option"
  inherited :: "jsval \<Rightarrow> string \<Rightarrow> jsval option"
  parseFloat :: "string \<Rightarrow> jsnum"
  Date_parse :: "string \<Rightarrow> jsnum"
  JSON_parse :: "string \<Rightarrow> thrown + jsval"
  same_object :: "jsval \<Rightarrow> jsval \<Rightarrow> bool"

text \<open>
  \<open>object[p]\<close>: the property of that name, else what the prototype chain has, else
  \<open>undefined\<close>.
\<close>

definition get_prop :: "env \<Rightarrow> jsval \<Rightarrow> string \<Rightarrow> jsval" where
  "get_prop env object p =
     (case map_of (props object) p of
        Some v \<Rightarrow> v
      | None \<Rightarrow> (case inherited env object p of Some v \<Rightarrow> v | None \<Rightarrow> VUndefined))"

text \<open>
  The members of \<open>Object.prototype\<close>, which every object made by \<open>{}\<close>, by an object
  literal or by \<open>JSON.parse\<close> inherits: functions, and under \<open>__proto__\<close> the accessor that
  reads as the prototype itself (an object without enumerable properties).
\<close>

definition Object_prototype_names :: "string list" where
  "Object_prototype_names =
     [''constructor'', ''__defineGetter__'', ''__defineSetter__'', ''hasOwnProperty'',
      ''__lookupGetter__'', ''__lookupSetter__'', ''isPrototypeOf'', ''propertyIsEnumerable'',
      ''toString'', ''valueOf'', ''__proto__'', ''toLocaleString'']"

definition Object_prototype :: "string \<Rightarrow> jsval option" where
  "Object_prototype p =
     (if p = ''__proto__'' then Some (VObj [])
      else if p \<in> set Object_prototype_names then Some (VFunction p)
      else None)"

text \<open>
  \<open>o[p] = x\<close> on an object made by \<open>{}\<close>: an assignment to \<open>__proto__\<close> goes to the setter
  of \<open>Object.prototype\<close>, which changes the prototype of \<open>o\<close> or does nothing and adds no
  property; every other name becomes or stays a property of \<open>o\<close>. (The prototype of an
  object that the code returns is not part of the value.)
\<close>

definition set_plain :: "string \<Rightarrow> 'a \<Rightarrow> (string \<times> 'a) list \<Rightarrow> (string \<times> 'a) list" where
  "set_plain p x ps = (if p = ''__proto__'' then ps else AList.update p x ps)"

text \<open>
  \<open>this.schema[field]\<close>, the schema being a plain object: the rule of the field, and for
  a name that the schema has not but \<open>Object.prototype\<close> has, that member. It is truthy and
  has none of the properties that \<open>_validate\<close> looks at (\<open>optional\<close>, \<open>validate\<close>,
  \<open>object\<close>, \<open>array\<close>, \<open>record\<close>, \<open>value\<close>, \<open>boolean\<close>, \<open>string\<close>, \<open>number\<close>, \<open>date\<close>), so
  it is validated against as the rule \<open>{}\<close> is. Any other name gives \<open>undefined\<close>.
\<close>

definition schema_lookup :: "(string \<times> rule) list \<Rightarrow> string \<Rightarrow> rule option" where
  "schema_lookup schema field =
     (case map_of schema field of
        Some r \<Rightarrow> Some r
      | None \<Rightarrow> if field \<in> set Object_prototype_names then Some empty_rule else None)"


section \<open>Simple rules\<close>

definition isSafeInteger :: "jsnum \<Rightarrow> bool" where
  "isSafeInteger x = (case x of Fin r \<Rightarrow> r = of_int \<lfloor>r\<rfloor> \<and> \<bar>r\<bar> \<le> 9007199254740991 | _ \<Rightarrow> False)"

text \<open>The time value of \<open>new Date(number)\<close>.\<close>

definition time_clip :: "jsnum \<Rightarrow> jsnum" where
  "time_clip x =
     (case x of
        Fin r \<Rightarrow> if \<bar>r\<bar> > 8640000000000000 then NaN
                 else Fin (of_int (if r < 0 then \<lceil>r\<rceil> else \<lfloor>r\<rfloor>))
      | _ \<Rightarrow> NaN)"

text \<open>\<open>rule.min != null && x < rule.min.bound\<close> and \<open>rule.max != null && x > rule.max.bound\<close>.\<close>

definition below_min :: "limit option \<Rightarrow> jsnum \<Rightarrow> bool" where
  "below_min l x = (case l of None \<Rightarrow> False | Some m \<Rightarrow> num_lt x (bound m))"

definition above_max :: "limit option \<Rightarrow> jsnum \<Rightarrow> bool" where
  "above_max l x = (case l of None \<Rightarrow> False | Some m \<Rightarrow> num_lt (bound m) x)"

definition lim_err :: "limit option \<Rightarrow> err" where
  "lim_err l = (case l of None \<Rightarrow> None | Some m \<Rightarrow> limit_err m)"

text \<open>The \<open>err\<close> property of a flag \<open>true | { err? }\<close>.\<close>

definition flag_err :: "err option \<Rightarrow> err" where
  "flag_err f = (case f of None \<Rightarrow> None | Some e \<Rightarrow> e)"

definition js_length :: "'a list \<Rightarrow> jsnum" where
  "js_length xs = Fin (of_nat (length xs))"

text \<open>
  Each check of a simple rule either returns an error result (\<open>Inl\<close>) or goes on with
  the value, which the number and date rules may have replaced (\<open>Inr\<close>).
\<close>

definition check_boolean :: "boolean_rule \<Rightarrow> jsval \<Rightarrow> vresult + jsval" where
  "check_boolean booleanRule v =
     (if typeof v \<noteq> TyBoolean \<or> (b_true booleanRule \<and> \<not> truthy v)
      then Inl (makeError (b_err booleanRule) None)
      else Inr v)"

definition check_string :: "string_rule \<Rightarrow> jsval \<Rightarrow> vresult + jsval" where
  "check_string stringRule v =
     (case v of
        VStr s \<Rightarrow>
          if (case s_match stringRule of Some test \<Rightarrow> \<not> test s | None \<Rightarrow> False)
          then Inl (makeError (s_err stringRule) None)
          else if s_required stringRule \<noteq> None \<and> s = []
          then Inl (makeError (flag_err (s_required stringRule)) (s_err stringRule))
          else if below_min (s_min stringRule) (js_length s)
          then Inl (makeError (lim_err (s_min stringRule)) (s_err stringRule))
          else if above_max (s_max stringRule) (js_length s)
          then Inl (makeError (lim_err (s_max stringRule)) (s_err stringRule))
          else Inr v
      | _ \<Rightarrow> Inl (makeError (s_err stringRule) None))"

definition check_number :: "env \<Rightarrow> number_rule \<Rightarrow> jsval \<Rightarrow> vresult + jsval" where
  "check_number env numberRule v =
     (case (case v of VStr s \<Rightarrow> VNum (parseFloat env s) | _ \<Rightarrow> v) of
        VNum x \<Rightarrow>
          if x = NaN then Inl (makeError (n_err numberRule) None)
          else if n_integer numberRule \<noteq> None \<and> \<not> isSafeInteger x
          then Inl (makeError (flag_err (n_integer numberRule)) (n_err numberRule))
          else if n_nonzero numberRule \<noteq> None \<and> x = Fin 0
          then Inl (makeError (flag_err (n_nonzero numberRule)) (n_err numberRule))
          else if n_positive numberRule \<noteq> None \<and> num_lt x (Fin 0)
          then Inl (makeError (flag_err (n_positive numberRule)) (n_err numberRule))
          else if below_min (n_min numberRule) x
          then Inl (makeError (lim_err (n_min numberRule)) (n_err numberRule))
          else if above_max (n_max numberRule) x
          then Inl (makeError (lim_err (n_max numberRule)) (n_err numberRule))
          else Inr (VNum x)
      | _ \<Rightarrow> Inl (makeError (n_err numberRule) None))"

definition check_date :: "env \<Rightarrow> date_rule \<Rightarrow> jsval \<Rightarrow> vresult + jsval" where
  "check_date env dateRule v =
     (case (case v of VStr s \<Rightarrow> VDate (Date_parse env s) | VNum x \<Rightarrow> VDate (time_clip x) | _ \<Rightarrow> v) of
        VDate t \<Rightarrow>
          if t = NaN then Inl (makeError (d_err dateRule) None)
          else if below_min (d_min dateRule) t
          then Inl (makeError (lim_err (d_min dateRule)) (d_err dateRule))
          else if above_max (d_max dateRule) t
          then Inl (makeError (lim_err (d_max dateRule)) (d_err dateRule))
          else Inr (VDate t)
      | _ \<Rightarrow> Inl (makeError (d_err dateRule) None))"

text \<open>
  \<open>Array.prototype.includes\<close> compares with SameValueZero: primitives by value, everything
  else by identity. A \<open>Date\<close> that the date rule has just made is identical to nothing.
\<close>

definition is_primitive :: "jsval \<Rightarrow> bool" where
  "is_primitive v =
     (case v of VDate _ \<Rightarrow> False | VFunction _ \<Rightarrow> False | VArr _ \<Rightarrow> False | VObj _ \<Rightarrow> False
      | _ \<Rightarrow> True)"

definition same_value_zero :: "env \<Rightarrow> jsval \<Rightarrow> jsval \<Rightarrow> bool" where
  "same_value_zero env x y =
     (if is_primitive x \<and> is_primitive y then x = y
      else if is_primitive x \<or> is_primitive y then False
      else same_object env x y)"

definition Array_includes :: "env \<Rightarrow> jsval list \<Rightarrow> bool \<Rightarrow> jsval \<Rightarrow> bool" where
  "Array_includes env xs fresh v = (\<not> fresh \<and> list_ex (\<lambda>x. same_value_zero env x v) xs)"

definition check_value :: "env \<Rightarrow> value_rule \<Rightarrow> bool \<Rightarrow> jsval \<Rightarrow> vresult + jsval" where
  "check_value env valueRule fresh v =
     (if \<not> Array_includes env (case v_match valueRule of Some xs \<Rightarrow> xs | None \<Rightarrow> []) fresh v
      then Inl (makeError (v_err valueRule) None)
      else Inr v)"

text \<open>
  The tail of \<open>_validate\<close>, from \<open>let { value: valueRule, ... } = rule\<close> on: the checks
  run in the order boolean, string, number, date, value.
\<close>

definition validateSimple :: "env \<Rightarrow> jsval \<Rightarrow> simple_rule \<Rightarrow> vresult" where
  "validateSimple env v0 r =
     (case (case r_boolean r of Some b \<Rightarrow> check_boolean b v0 | None \<Rightarrow> Inr v0) of
        Inl e \<Rightarrow> e
      | Inr v1 \<Rightarrow>
     (case (case r_string r of Some s \<Rightarrow> check_string s v1 | None \<Rightarrow> Inr v1) of
        Inl e \<Rightarrow> e
      | Inr v2 \<Rightarrow>
     (case (case r_number r of Some n \<Rightarrow> check_number env n v2 | None \<Rightarrow> Inr v2) of
        Inl e \<Rightarrow> e
      | Inr v3 \<Rightarrow>
     (case (case r_date r of Some d \<Rightarrow> check_date env d v3 | None \<Rightarrow> Inr v3) of
        Inl e \<Rightarrow> e
      | Inr v4 \<Rightarrow>
     (case (case r_value r of
              Some m \<Rightarrow>
                check_value env m
                  (r_date r \<noteq> None \<and> (typeof v3 = TyString \<or> typeof v3 = TyNumber)) v4
            | None \<Rightarrow> Inr v4) of
        Inl e \<Rightarrow> e
      | Inr v5 \<Rightarrow> \<lparr>rvalue = v5, rerror = None\<rparr>)))))"

section \<open>The recursive validator\<close>

text \<open>
  The three loops, over the call that validates one item. \<open>_validateObject\<close>: every
  rule of the schema is tried; a failure empties the result and adds to \<open>errors\<close>.
  \<open>result\<close> and \<open>errors\<close> are made by \<open>{}\<close>; the result of the \<open>record\<close> branch is made by
  \<open>Object.create(null)\<close>, where every name is a property.
\<close>

type_synonym item_validator = "jsval \<Rightarrow> field \<Rightarrow> rule \<Rightarrow> thrown + vresult"

fun validateObject_loop ::
  "env \<Rightarrow> item_validator \<Rightarrow> jsval \<Rightarrow> schema \<Rightarrow> (string \<times> jsval) list option \<Rightarrow> err \<Rightarrow>
   (string \<times> js_error) list \<Rightarrow> thrown + (vresult \<times> (string \<times> js_error) list)" where
  "validateObject_loop env item object [] result error errors =
     Inr (\<lparr>rvalue = (case result of None \<Rightarrow> VUndefined | Some ps \<Rightarrow> VObj ps), rerror = error\<rparr>,
          errors)"
| "validateObject_loop env item object ((p, r) # rules) result error errors =
     (case item (get_prop env object p) (FName p) r of
        Inl x \<Rightarrow> Inl x
      | Inr v \<Rightarrow>
          if has_error v
          then validateObject_loop env item object rules None
                 (if \<not> truthy_err error then rerror v else error)
                 (set_plain p (Error (String_of (the (rerror v)))) errors)
          else validateObject_loop env item object rules
                 (map_option (set_plain p (rvalue v)) result) error errors)"

text \<open>\<open>_validateArray\<close>: the first item that fails ends the loop with its result.\<close>

fun validateArray_loop ::
  "item_validator \<Rightarrow> jsval list \<Rightarrow> nat \<Rightarrow> rule \<Rightarrow> jsval list \<Rightarrow> thrown + vresult" where
  "validateArray_loop item [] i r result = Inr \<lparr>rvalue = VArr result, rerror = None\<rparr>"
| "validateArray_loop item (x # xs) i r result =
     (case item x (FIndex i) r of
        Inl e \<Rightarrow> Inl e
      | Inr v \<Rightarrow>
          if has_error v then Inr v
          else validateArray_loop item xs (i + 1) r (result @ [rvalue v]))"

text \<open>The loop of the \<open>record\<close> branch, over the properties of the value.\<close>

fun validateRecord_loop ::
  "item_validator \<Rightarrow> (string \<times> jsval) list \<Rightarrow> rule \<Rightarrow> (string \<times> jsval) list \<Rightarrow> thrown + vresult" where
  "validateRecord_loop item [] r result = Inr \<lparr>rvalue = VObj result, rerror = None\<rparr>"
| "validateRecord_loop item ((k, x) # kvs) r result =
     (case item x (FName k) r of
        Inl e \<Rightarrow> Inl e
      | Inr v \<Rightarrow>
          if has_error v then Inr v
          else validateRecord_loop item kvs r (AList.update k (rvalue v) result))"

text \<open>
  \<open>_validate\<close>. \<open>maxRecurse-- < 0\<close> tests the budget and then takes one unit from it, so
  the calls for the parts of a composite value run on \<open>maxRecurse - 1\<close>. Values and
  rules may be infinite, so the recursion is not on their structure: the function
  terminates because the budget falls with every nested call and the loops run over
  finite lists.
\<close>

function validate :: "env \<Rightarrow> jsval \<Rightarrow> field \<Rightarrow> rule option \<Rightarrow> int \<Rightarrow> thrown + vresult" where
  "validate env v field rule maxRecurse =
     (case rule of
        None \<Rightarrow> Inl (ThrowError (RangeError []))
      | Some r \<Rightarrow>
          if maxRecurse < 0 then Inr \<lparr>rvalue = VUndefined, rerror = Some (SStr DEFAULT_ERROR)\<rparr>
          else if optional r \<and> is_undefined v then Inr \<lparr>rvalue = VUndefined, rerror = None\<rparr>
          else
            (case body r of
               Validate f \<Rightarrow>
                 (case validators env f of
                    None \<Rightarrow> Inl (ThrowError (TypeError []))
                  | Some g \<Rightarrow> g v (field_or_underscore field))
             | ObjectRule sch e \<Rightarrow>
                 if \<not> isObject v then Inr (makeError e None)
                 else map_sum id fst
                   (validateObject_loop env (\<lambda>x f r'. validate env x f (Some r') (maxRecurse - 1)) v
                      (case sch of Some s \<Rightarrow> s | None \<Rightarrow> []) (Some []) None [])
             | ArrayRule items e mn mx \<Rightarrow>
                 (case v of
                    VArr xs \<Rightarrow>
                      if below_min mn (js_length xs) then Inr (makeError (lim_err mn) e)
                      else if above_max mx (js_length xs) then Inr (makeError (lim_err mx) e)
                      else validateArray_loop (\<lambda>x f r'. validate env x f (Some r') (maxRecurse - 1))
                             xs 0 (case items of Some i \<Rightarrow> i | None \<Rightarrow> empty_rule) []
                  | _ \<Rightarrow> Inr (makeError e None))
             | RecordRule vals e \<Rightarrow>
                 if \<not> isObject v then Inr (makeError e None)
                 else validateRecord_loop (\<lambda>x f r'. validate env x f (Some r') (maxRecurse - 1))
                        (props v) (case vals of Some i \<Rightarrow> i | None \<Rightarrow> empty_rule) []
             | SimpleRule s \<Rightarrow> Inr (validateSimple env v s)))"
  by pat_completeness auto
termination
  by (relation "measure (\<lambda>(env, v, field, rule, maxRecurse). nat (maxRecurse + 1))") auto

declare validate.simps [simp del]


text \<open>\<open>_validateObject(object, rules, maxRecurse)\<close> and \<open>_validateArray(array, rule, maxRecurse)\<close>.\<close>

definition validateObject ::
  "env \<Rightarrow> jsval \<Rightarrow> schema \<Rightarrow> int \<Rightarrow> thrown + (vresult \<times> (string \<times> js_error) list)" where
  "validateObject env object rules maxRecurse =
     validateObject_loop env (\<lambda>x f r. validate env x f (Some r) maxRecurse) object rules
       (Some []) None []"

definition validateArray :: "env \<Rightarrow> jsval list \<Rightarrow> rule \<Rightarrow> int \<Rightarrow> thrown + vresult" where
  "validateArray env array r maxRecurse =
     validateArray_loop (\<lambda>x f r'. validate env x f (Some r') maxRecurse) array 0 r []"

section \<open>ObjectReader\<close>

text \<open>
  The three methods, over the schema of the reader. A result is \<open>Inl\<close> when the call
  throws, and \<open>Inr\<close> of the returned tuple otherwise.
\<close>

definition read :: "env \<Rightarrow> schema \<Rightarrow> jsval \<Rightarrow> thrown + (jsval \<times> (string \<times> js_error) list)" where
  "read env schema object =
     (if \<not> isObject object then Inr (VUndefined, [(''_'', TypeError [])])
      else map_sum id (\<lambda>(v, errors). (rvalue v, errors))
             (validateObject env object schema MAX_RECURSE))"

definition readField ::
  "env \<Rightarrow> schema \<Rightarrow> jsval \<Rightarrow> string \<Rightarrow> thrown + (jsval \<times> js_error option)" where
  "readField env schema object field =
     (if \<not> isObject object then Inr (VUndefined, Some (TypeError []))
      else
        (case validate env (get_prop env object field) (FName field) (schema_lookup schema field)
                MAX_RECURSE of
           Inl x \<Rightarrow> Inl x
         | Inr v \<Rightarrow>
             if has_error v then Inr (VUndefined, Some (Error (String_of (the (rerror v)))))
             else Inr (rvalue v, None)))"

text \<open>\<open>err instanceof Error ? err : Error(String(err))\<close>.\<close>

definition caught_error :: "thrown \<Rightarrow> js_error" where
  "caught_error x = (case x of ThrowError e \<Rightarrow> e | ThrowOther s \<Rightarrow> Error s)"

definition readJSONString :: "env \<Rightarrow> schema \<Rightarrow> string \<Rightarrow> jsval \<times> (string \<times> js_error) list" where
  "readJSONString env schema json =
     (case JSON_parse env json of
        Inl x \<Rightarrow> (VUndefined, [(''_'', caught_error x)])
      | Inr object \<Rightarrow>
          (case read env schema object of
             Inl x \<Rightarrow> (VUndefined, [(''_'', caught_error x)])
           | Inr result \<Rightarrow> result))"


section \<open>Depth of nesting, and where exceptions come from\<close>

text \<open>The result of \<open>_validate\<close> when the budget is used up: \<open>{ error: DEFAULT_ERROR }\<close>.\<close>

definition budget_error :: vresult where
  "budget_error = \<lparr>rvalue = VUndefined, rerror = Some (SStr DEFAULT_ERROR)\<rparr>"

text \<open>
  A chain of composite rules around the rule \<open>{}\<close>, and a value of the same shape around
  \<open>null\<close>: one object with the property \<open>item\<close>, one array with one element, or one
  record with the key \<open>key\<close> for each level.
\<close>

datatype composite = CObject | CArray | CRecord

fun nest_rule :: "composite list \<Rightarrow> rule" where
  "nest_rule [] = empty_rule"
| "nest_rule (CObject # ks) = Rule False (ObjectRule (Some [(''item'', nest_rule ks)]) None)"
| "nest_rule (CArray # ks) = Rule False (ArrayRule (Some (nest_rule ks)) None None None)"
| "nest_rule (CRecord # ks) = Rule False (RecordRule (Some (nest_rule ks)) None)"

fun nest_value :: "composite list \<Rightarrow> jsval" where
  "nest_value [] = VNull"
| "nest_value (CObject # ks) = VObj [(''item'', nest_value ks)]"
| "nest_value (CArray # ks) = VArr [nest_value ks]"
| "nest_value (CRecord # ks) = VObj [(''key'', nest_value ks)]"

text \<open>
  A schema rule and a value that refer to themselves:
  \<open>rule = { object: { schema: { self: rule } } }\<close> and \<open>value = { self: value }\<close>.
\<close>

primcorec cyclic_rule :: rule and cyclic_body :: rule_body where
  "cyclic_rule = Rule False cyclic_body"
| "cyclic_body = ObjectRule (Some [(''self'', cyclic_rule)]) None"

primcorec cyclic_value :: jsval where
  "cyclic_value = VObj [(''self'', cyclic_value)]"

text \<open>
  An exception that a \<open>validate\<close> property accounts for: the \<open>TypeError\<close> for a property
  that is not a function, or whatever one of the custom validators throws.
\<close>

definition validator_throws :: "env \<Rightarrow> thrown \<Rightarrow> bool" where
  "validator_throws env x =
     ((x = ThrowError (TypeError []) \<and> (\<exists>n. validators env n = None)) \<or>
      (\<exists>n g v f. validators env n = Some g \<and> g v f = Inl x))"

text \<open>
  Rules that cannot accept \<open>undefined\<close> unless they are optional: the object, array and
  record rules, and a simple rule with a boolean, string, number or date constraint.
\<close>

definition requires_value :: "rule \<Rightarrow> bool" where
  "requires_value r =
     (case body r of
        Validate _ \<Rightarrow> False
      | SimpleRule s \<Rightarrow>
          r_boolean s \<noteq> None \<or> r_string s \<noteq> None \<or> r_number s \<noteq> None \<or> r_date s \<noteq> None
      | _ \<Rightarrow> True)"

section \<open>Example inputs\<close>

text \<open>
  An environment without custom validators, in which every object is a plain one, no
  string parses as a number or a date and \<open>{}\<close> is the only JSON text; one whose custom validators all throw; the schema
  \<open>{ name: { string: { min: { length: 2 } } } }\<close>; and an optional string rule.
\<close>

definition env0 :: env where
  "env0 = \<lparr>validators = (\<lambda>_. None), inherited = (\<lambda>_. Object_prototype),
            parseFloat = (\<lambda>_. NaN), Date_parse = (\<lambda>_. NaN),
            JSON_parse = (\<lambda>s. if s = ''{}'' then Inr (VObj [])
                               else Inl (ThrowError (SyntaxError ''Unexpected token''))),
            same_object = (\<lambda>_ _. False)\<rparr>"

definition env_throwing :: env where
  "env_throwing = env0\<lparr>validators := (\<lambda>_. Some (\<lambda>v f. Inl (ThrowOther ''boom'')))\<rparr>"

definition name_rule :: rule where
  "name_rule =
     Rule False (SimpleRule (empty_simple
       \<lparr>r_string := Some \<lparr>s_err = None, s_match = None, s_required = None,
                           s_min = Some \<lparr>bound = Fin 2, limit_err = None\<rparr>, s_max = None\<rparr>\<rparr>))"

definition name_schema :: schema where
  "name_schema = [(''name'', name_rule)]"

definition nick_rule :: rule where
  "nick_rule =
     Rule True (SimpleRule (empty_simple
       \<lparr>r_string := Some \<lparr>s_err = None, s_match = None, s_required = None,
                           s_min = None, s_max = None\<rparr>\<rparr>))"

section \<open>ManagedEvent\<close>

text \<open>
  A managed object is known by its identity. An event is an immutable value:
  \<open>name\<close>, \<open>source\<close>, \<open>data\<close>, \<open>delegate\<close>, \<open>inner\<close> and \<open>noPropagation\<close>, the last three
  optional. (That no field of an event changes once the constructor has returned is
  shown on a store of mutable objects in the next section.)
\<close>

type_synonym obj = nat

type_synonym event_data = "(string \<times> jsval) list"

datatype ManagedEvent =
  ManagedEvent (ev_name: string) (ev_source: obj) (ev_data: event_data)
    (ev_delegate: "obj option") (ev_inner: "ManagedEvent option") (ev_noPropagation: "bool option")

text \<open>\<open>const NO_DATA = Object.freeze({})\<close>, as a value.\<close>

definition NO_DATA :: event_data where
  "NO_DATA = []"

text \<open>The constructor: \<open>this.data = data || NO_DATA\<close>, every other field as given.\<close>

definition new_ManagedEvent ::
  "string \<Rightarrow> obj \<Rightarrow> event_data option \<Rightarrow> obj option \<Rightarrow> ManagedEvent option \<Rightarrow> bool option \<Rightarrow>
   ManagedEvent" where
  "new_ManagedEvent name source data delegate inner_event noPropagation =
     ManagedEvent name source (case data of Some d \<Rightarrow> d | None \<Rightarrow> NO_DATA)
       delegate inner_event noPropagation"

text \<open>
  \<open>findDelegate(type)\<close>; the class \<open>type\<close> is given by the predicate \<open>x instanceof type\<close>.
  \<open>for (let e = this; e; e = e.inner) if (e.delegate instanceof type) return e.delegate\<close>.
\<close>

fun findDelegate :: "(obj \<Rightarrow> bool) \<Rightarrow> ManagedEvent \<Rightarrow> obj option" where
  "findDelegate instance_of (ManagedEvent name source data delegate inner_event noPropagation) =
     (if (case delegate of Some d \<Rightarrow> instance_of d | None \<Rightarrow> False) then delegate
      else (case inner_event of None \<Rightarrow> None | Some e \<Rightarrow> findDelegate instance_of e))"

text \<open>
  The chain \<open>e, e.inner, e.inner.inner, ...\<close> and the delegate of the first event in it
  whose delegate is an instance of the class, as the specification words it.
\<close>

fun inner_chain :: "ManagedEvent \<Rightarrow> ManagedEvent list" where
  "inner_chain (ManagedEvent name source data delegate inner_event noPropagation) =
     ManagedEvent name source data delegate inner_event noPropagation #
       (case inner_event of None \<Rightarrow> [] | Some e \<Rightarrow> inner_chain e)"

definition delegate_matches :: "(obj \<Rightarrow> bool) \<Rightarrow> ManagedEvent \<Rightarrow> bool" where
  "delegate_matches instance_of e = (case ev_delegate e of Some d \<Rightarrow> instance_of d | None \<Rightarrow> False)"

definition first_delegate :: "(obj \<Rightarrow> bool) \<Rightarrow> ManagedEvent \<Rightarrow> obj option" where
  "first_delegate instance_of e =
     (case List.find (delegate_matches instance_of) (inner_chain e) of
        None \<Rightarrow> None
      | Some x \<Rightarrow> ev_delegate x)"

section \<open>Events as frozen objects in a store\<close>

text \<open>
  To state what \<open>Object.freeze\<close> gives, objects live in a store: an address is an index
  into the list of all objects made so far, and an object is its properties together
  with the flag that \<open>Object.freeze\<close> sets. A property holds a primitive or an address.
\<close>

datatype hval = HUndefined | HBool bool | HStr string | HRef nat

record hobject =
  h_props :: "(string \<times> hval) list"
  h_frozen :: bool

type_synonym store = "hobject list"

definition truthy_h :: "hval \<Rightarrow> bool" where
  "truthy_h v = (case v of HUndefined \<Rightarrow> False | HBool b \<Rightarrow> b | HStr s \<Rightarrow> s \<noteq> [] | HRef _ \<Rightarrow> True)"

text \<open>A new empty object, at the next free address.\<close>

definition new_object :: "store \<Rightarrow> nat \<times> store" where
  "new_object s = (length s, s @ [\<lparr>h_props = [], h_frozen = False\<rparr>])"

definition Object_freeze :: "store \<Rightarrow> nat \<Rightarrow> store" where
  "Object_freeze s a = (if a < length s then s[a := (s ! a)\<lparr>h_frozen := True\<rparr>] else s)"

text \<open>
  \<open>o.k = v\<close> and \<open>delete o.k\<close> in strict mode (the code is an ES module): on a frozen
  object the assignment throws a \<open>TypeError\<close>, and so does the \<open>delete\<close> of a property
  that the object has; the \<open>delete\<close> of a name that it does not have returns \<open>true\<close>. None
  of them changes the object.
\<close>

definition set_prop :: "store \<Rightarrow> nat \<Rightarrow> string \<Rightarrow> hval \<Rightarrow> thrown + store" where
  "set_prop s a k v =
     (if a < length s \<and> \<not> h_frozen (s ! a)
      then Inr (s[a := (s ! a)\<lparr>h_props := AList.update k v (h_props (s ! a))\<rparr>])
      else Inl (ThrowError (TypeError ''Cannot assign to read only property'')))"

definition delete_prop :: "store \<Rightarrow> nat \<Rightarrow> string \<Rightarrow> thrown + store" where
  "delete_prop s a k =
     (if a < length s \<and> h_frozen (s ! a) \<and> k \<in> fst ` set (h_props (s ! a))
      then Inl (ThrowError (TypeError ''Cannot delete property''))
      else if a < length s
      then Inr (s[a := (s ! a)\<lparr>h_props := AList.delete k (h_props (s ! a))\<rparr>])
      else Inl (ThrowError (TypeError ''Cannot convert undefined or null to object'')))"

text \<open>\<open>const NO_DATA = Object.freeze({})\<close>, when the module is loaded.\<close>

definition init_NO_DATA :: "store \<Rightarrow> nat \<times> store" where
  "init_NO_DATA s = (let (a, s1) = new_object s in (a, Object_freeze s1 a))"

text \<open>
  The constructor on the store: \<open>this\<close> is a new object, the six assignments run in the
  order of the source, and \<open>Object.freeze(this)\<close> ends it. \<open>no_data\<close> is the address of
  \<open>NO_DATA\<close>; an argument that the caller leaves out is \<open>undefined\<close>.
\<close>

definition construct_ManagedEvent ::
  "nat \<Rightarrow> store \<Rightarrow> hval \<Rightarrow> hval \<Rightarrow> hval \<Rightarrow> hval \<Rightarrow> hval \<Rightarrow> hval \<Rightarrow> thrown + (nat \<times> store)" where
  "construct_ManagedEvent no_data s name source data delegate inner_event noPropagation =
     (let (this, s0) = new_object s in
      case foldl (\<lambda>r (k, v). case r of Inl x \<Rightarrow> Inl x | Inr s' \<Rightarrow> set_prop s' this k v) (Inr s0)
             [(''name'', name),
              (''source'', source),
              (''data'', if truthy_h data then data else HRef no_data),
              (''delegate'', delegate),
              (''inner'', inner_event),
              (''noPropagation'', noPropagation)] of
        Inl x \<Rightarrow> Inl x
      | Inr s6 \<Rightarrow> Inr (this, Object_freeze s6 this))"

text \<open>The object that the constructor leaves in the store.\<close>

definition event_object :: "nat \<Rightarrow> hval \<Rightarrow> hval \<Rightarrow> hval \<Rightarrow> hval \<Rightarrow> hval \<Rightarrow> hval \<Rightarrow> hobject" where
  "event_object no_data name source data delegate inner_event noPropagation =
     \<lparr>h_props =
        [(''name'', name),
         (''source'', source),
         (''data'', if truthy_h data then data else HRef no_data),
         (''delegate'', delegate),
         (''inner'', inner_event),
         (''noPropagation'', noPropagation)],
      h_frozen = True\<rparr>"

text \<open>
  Anything that code may try on the store afterwards; a step that throws leaves the store
  as it was.
\<close>

datatype mutation = SetProp nat string hval | DeleteProp nat string | Freeze nat | NewObject

definition apply_mutation :: "store \<Rightarrow> mutation \<Rightarrow> store" where
  "apply_mutation s m =
     (case m of
        SetProp a k v \<Rightarrow> (case set_prop s a k v of Inl _ \<Rightarrow> s | Inr s' \<Rightarrow> s')
      | DeleteProp a k \<Rightarrow> (case delete_prop s a k of Inl _ \<Rightarrow> s | Inr s' \<Rightarrow> s')
      | Freeze a \<Rightarrow> Object_freeze s a
      | NewObject \<Rightarrow> snd (new_object s))"

section \<open>View presets\<close>

text \<open>
  Modelled from the spec: the binding engine is not among the sources; a binding is an
  opaque object that \<open>isBinding\<close> recognises and that is asked to bind to a property.

  A value of a preset is a plain value or a binding (what \<open>isBinding\<close> accepts, known by a
  number). A view has an identity, the properties that were set on it, the bindings that
  were bound to it (\<open>v.bindTo(this, p)\<close>, in order) and its \<open>emit\<close> method: the original
  one, or a wrapper that \<open>applyViewPreset\<close> installed, with its table of events and the
  \<open>emit\<close> it replaced.
\<close>

datatype pvalue = Plain jsval | Binding nat

datatype emit_fn = OriginalEmit | InterceptEmit "(string \<times> string) list" emit_fn

record view =
  v_id :: obj
  v_props :: "(string \<times> jsval) list"
  v_bindings :: "(string \<times> nat) list"
  v_emit :: emit_fn

text \<open>\<open>p[0] === "o" && p[1] === "n" && (p[2]! < "a" || p[2]! > "z")\<close>; a comparison with the
  \<open>undefined\<close> of a missing third character is false.\<close>

definition is_event_key :: "string \<Rightarrow> bool" where
  "is_event_key p =
     (case p of
        c0 # c1 # c2 # _ \<Rightarrow>
          c0 = CHR ''o'' \<and> c1 = CHR ''n'' \<and>
          ((of_char c2 :: nat) < of_char CHR ''a'' \<or> (of_char c2 :: nat) > of_char CHR ''z'')
      | _ \<Rightarrow> False)"

text \<open>\<open>!v || typeof v !== "string" || eventName === v\<close>.\<close>

definition bad_remap :: "string \<Rightarrow> pvalue \<Rightarrow> bool" where
  "bad_remap eventName v =
     (case v of
        Plain (VStr s) \<Rightarrow> s = [] \<or> eventName = s
      | _ \<Rightarrow> True)"

text \<open>
  Modelled from the spec: \<open>invalidArgErr\<close> of \<open>errors.js\<close>, which is not among the sources;
  the specification calls the error \<open>InvalidArgument\<close>.
\<close>

definition invalidArgErr :: "string \<Rightarrow> js_error" where
  "invalidArgErr s = InvalidArgument s"

text \<open>
  The loop of \<open>applyViewPreset\<close> over the properties of the preset. It returns the view,
  the table of events (\<open>None\<close> while there is none) and the exception, if one was thrown.
\<close>

fun applyViewPreset_loop ::
  "view \<Rightarrow> (string \<times> pvalue) list \<Rightarrow> (string \<times> string) list option \<Rightarrow>
   view \<times> (string \<times> string) list option \<times> thrown option" where
  "applyViewPreset_loop this [] events = (this, events, None)"
| "applyViewPreset_loop this ((p, v) # preset) events =
     (if v = Plain VUndefined then applyViewPreset_loop this preset events
      else if is_event_key p then
        (let eventName = drop 2 p in
         if bad_remap eventName v
         then (this, events, Some (ThrowError (invalidArgErr (''preset.'' @ p))))
         else applyViewPreset_loop this preset
                (Some (AList.update eventName (case v of Plain (VStr s) \<Rightarrow> s | _ \<Rightarrow> [])
                         (case events of None \<Rightarrow> [] | Some t \<Rightarrow> t))))
      else
        (case v of
           Binding b \<Rightarrow>
             applyViewPreset_loop (this\<lparr>v_bindings := v_bindings this @ [(p, b)]\<rparr>) preset events
         | Plain x \<Rightarrow>
             applyViewPreset_loop (this\<lparr>v_props := AList.update p x (v_props this)\<rparr>) preset events))"

text \<open>\<open>applyViewPreset\<close>: the loop, then \<open>if (events)\<close> the override of \<open>emit\<close>.\<close>

definition applyViewPreset :: "view \<Rightarrow> (string \<times> pvalue) list \<Rightarrow> view \<times> thrown option" where
  "applyViewPreset this preset =
     (case applyViewPreset_loop this preset None of
        (this', events, Some x) \<Rightarrow> (this', Some x)
      | (this', None, None) \<Rightarrow> (this', None)
      | (this', Some t, None) \<Rightarrow> (this'\<lparr>v_emit := InterceptEmit t (v_emit this')\<rparr>, None))"

text \<open>\<open>v.indexOf(c)\<close>: the index of the first \<open>c\<close>, or \<open>-1\<close>.\<close>

definition indexOf :: "string \<Rightarrow> char \<Rightarrow> int" where
  "indexOf s c = (if c \<in> set s then int (length (takeWhile (\<lambda>x. x \<noteq> c) s)) else - 1)"

text \<open>
  The end of the wrapper, for a target \<open>v\<close> that has lost its \<open>+\<close>: the \<open>target\<close> data
  property where \<open>colonIndex > 0\<close>, and the new event with the original one as \<open>inner\<close>.
\<close>

definition intercept_event :: "obj \<Rightarrow> string \<Rightarrow> ManagedEvent \<Rightarrow> event_data option \<Rightarrow> ManagedEvent" where
  "intercept_event this v event data =
     (let colonIndex = indexOf v CHR '':'' in
      new_ManagedEvent
        (if colonIndex > 0 then take (nat colonIndex) v else v)
        this
        (if colonIndex > 0 then Some [(''target'', VStr (drop (nat (colonIndex + 1)) v))] else data)
        None (Some event) None)"

text \<open>
  A call of an \<open>emit\<close> method on the view \<open>this\<close>. \<open>orig\<close> is what the original \<open>emit\<close> does
  to the state of the listeners, given its arguments; \<open>this_emit\<close> is \<open>this.emit\<close>, the method
  that the last line of the wrapper calls. The call may go on for ever (an event
  remapped to itself through two keys), so the result is an option.
\<close>

partial_function (option) call_emit ::
  "('s \<Rightarrow> string + ManagedEvent \<Rightarrow> event_data option \<Rightarrow> 's) \<Rightarrow> obj \<Rightarrow> emit_fn \<Rightarrow> emit_fn \<Rightarrow> 's \<Rightarrow>
   string + ManagedEvent \<Rightarrow> event_data option \<Rightarrow> 's option" where
  "call_emit orig this this_emit callee s event data =
     (case callee of
        OriginalEmit \<Rightarrow> Some (orig s event data)
      | InterceptEmit events emit0 \<Rightarrow>
          (let e = (case event of Inl name \<Rightarrow> new_ManagedEvent name this data None None None
                    | Inr e' \<Rightarrow> e');
               data' = (case event of Inl name \<Rightarrow> data | Inr e' \<Rightarrow> Some (ev_data e'));
               v = (case map_of events (ev_name e) of None \<Rightarrow> [] | Some t \<Rightarrow> t)
           in if v = [] then call_emit orig this this_emit emit0 s (Inr e) None
              else
                Option.bind
                  (if hd v = CHR ''+'' then call_emit orig this this_emit emit0 s (Inr e) None else Some s)
                  (\<lambda>s1. call_emit orig this this_emit this_emit s1
                          (Inr (intercept_event this (if hd v = CHR ''+'' then tl v else v) e data'))
                          None)))"

text \<open>\<open>view.emit(event, data)\<close>.\<close>

definition emit :: 
  "('s \<Rightarrow> string + ManagedEvent \<Rightarrow> event_data option \<Rightarrow> 's) \<Rightarrow> view \<Rightarrow> 's \<Rightarrow>
   string + ManagedEvent \<Rightarrow> event_data option \<Rightarrow> 's option" where
  "emit orig this s event data = call_emit orig (v_id this) (v_emit this) (v_emit this) s event data"

text \<open>
  Listeners that keep what they are given: the original \<open>emit\<close> makes the event from a
  name if it has to and appends it to the list of delivered events.
\<close>

definition deliver :: "obj \<Rightarrow> ManagedEvent list \<Rightarrow> string + ManagedEvent \<Rightarrow> event_data option \<Rightarrow> ManagedEvent list" where
  "deliver this delivered event data =
     delivered @ [case event of Inl name \<Rightarrow> new_ManagedEvent name this data None None None | Inr e \<Rightarrow> e]"


text \<open>
  What the loop does, read off the preset: the entry at which it throws, and the event
  names with their targets in the order of the preset.
\<close>

definition bad_entry :: "string \<times> pvalue \<Rightarrow> bool" where
  "bad_entry pv = (snd pv \<noteq> Plain VUndefined \<and> is_event_key (fst pv) \<and> bad_remap (drop 2 (fst pv)) (snd pv))"

fun remaps :: "(string \<times> pvalue) list \<Rightarrow> (string \<times> string) list" where
  "remaps [] = []"
| "remaps ((p, v) # preset) =
     (if v \<noteq> Plain VUndefined \<and> is_event_key p
      then (drop 2 p, case v of Plain (VStr s) \<Rightarrow> s | _ \<Rightarrow> []) # remaps preset
      else remaps preset)"

definition table_of :: "(string \<times> string) list option \<Rightarrow> (string \<times> string) list" where
  "table_of events = (case events of None \<Rightarrow> [] | Some t \<Rightarrow> t)"

text \<open>
  A new view, the preset \<open>{ text: "Remove", onClick: "+RemoveItem" }\<close>, and the view with
  that preset applied.
\<close>

definition view0 :: view where
  "view0 = \<lparr>v_id = 1, v_props = [], v_bindings = [], v_emit = OriginalEmit\<rparr>"

definition click_preset :: "(string \<times> pvalue) list" where
  "click_preset = [(''text'', Plain (VStr ''Remove'')), (''onClick'', Plain (VStr ''+RemoveItem''))]"


section \<open>The aggregate result of \<open>read\<close>\<close>

lemma update_fresh: "k \<notin> fst ` set al \<Longrightarrow> AList.update k v al = al @ [(k, v)]"
  by (induction al) auto

lemma set_plain_fresh:
  "p \<noteq> ''__proto__'' \<Longrightarrow> p \<notin> fst ` set al \<Longrightarrow> set_plain p v al = al @ [(p, v)]"
  by (simp add: set_plain_def update_fresh)

lemma validateObject_loop_result:
  assumes "\<And>p r. (p, r) \<in> set rules \<Longrightarrow> item (get_prop env object p) (FName p) r = Inr (res p r)"
    and "distinct (map fst rules)"
    and "fst ` set rules \<inter> fst ` set errors = {}"
    and "\<And>ps. result = Some ps \<Longrightarrow> fst ` set rules \<inter> fst ` set ps = {}"
    and "''__proto__'' \<notin> fst ` set rules"
  shows "validateObject_loop env item object rules result error errors =
     Inr (\<lparr>rvalue =
            (if list_ex (\<lambda>(p, r). has_error (res p r)) rules then VUndefined
             else (case result of None \<Rightarrow> VUndefined
                   | Some ps \<Rightarrow> VObj (ps @ map (\<lambda>(p, r). (p, rvalue (res p r))) rules))),
           rerror =
            (if truthy_err error then error
             else (case filter (\<lambda>(p, r). has_error (res p r)) rules of
                     [] \<Rightarrow> error | (p, r) # _ \<Rightarrow> rerror (res p r)))\<rparr>,
          errors @ map (\<lambda>(p, r). (p, Error (String_of (the (rerror (res p r))))))
                     (filter (\<lambda>(p, r). has_error (res p r)) rules))"
  using assms
proof (induction rules arbitrary: result error errors)
  case Nil
  then show ?case by (simp split: option.splits)
next
  case (Cons pr rules)
  obtain p r where pr: "pr = (p, r)" by (cases pr)
  have item: "item (get_prop env object p) (FName p) r = Inr (res p r)"
    using Cons.prems(1) pr by simp
  have fresh_e: "p \<notin> fst ` set errors" using Cons.prems(3) pr by auto
  have notin: "p \<notin> fst ` set rules" using Cons.prems(2) pr by auto
  have np: "p \<noteq> ''__proto__''" and nr: "''__proto__'' \<notin> fst ` set rules"
    using Cons.prems(5) pr by auto
  show ?case
  proof (cases "has_error (res p r)")
    case True
    have "validateObject_loop env item object rules None
            (if \<not> truthy_err error then rerror (res p r) else error)
            (errors @ [(p, Error (String_of (the (rerror (res p r)))))]) = 
          Inr (\<lparr>rvalue = VUndefined,
           rerror =
            (if truthy_err (if \<not> truthy_err error then rerror (res p r) else error) then (if \<not> truthy_err error then rerror (res p r) else error)
             else (case filter (\<lambda>(p, r). has_error (res p r)) rules of
                     [] \<Rightarrow> (if \<not> truthy_err error then rerror (res p r) else error) | (p, r) # _ \<Rightarrow> rerror (res p r)))\<rparr>,
          (errors @ [(p, Error (String_of (the (rerror (res p r)))))]) @ map (\<lambda>(p, r). (p, Error (String_of (the (rerror (res p r))))))
                     (filter (\<lambda>(p, r). has_error (res p r)) rules))"
      using Cons.prems notin pr
      by (subst Cons.IH) auto
    then show ?thesis
      using True item pr fresh_e np by (auto simp: set_plain_fresh has_error_def)
  next
    case False
    have "validateObject_loop env item object rules (map_option (set_plain p (rvalue (res p r))) result) error errors =
        Inr (\<lparr>rvalue =
            (if list_ex (\<lambda>(p, r). has_error (res p r)) rules then VUndefined
             else (case (map_option (set_plain p (rvalue (res p r))) result) of None \<Rightarrow> VUndefined
                   | Some ps \<Rightarrow> VObj (ps @ map (\<lambda>(p, r). (p, rvalue (res p r))) rules))),
           rerror =
            (if truthy_err error then error
             else (case filter (\<lambda>(p, r). has_error (res p r)) rules of
                     [] \<Rightarrow> error | (p, r) # _ \<Rightarrow> rerror (res p r)))\<rparr>,
          errors @ map (\<lambda>(p, r). (p, Error (String_of (the (rerror (res p r))))))
                     (filter (\<lambda>(p, r). has_error (res p r)) rules))"
    proof (rule Cons.IH)
      show "\<And>p r. (p, r) \<in> set rules \<Longrightarrow> item (get_prop env object p) (FName p) r = Inr (res p r)"
        using Cons.prems(1) by simp
      show "distinct (map fst rules)" using Cons.prems(2) by simp
      show "fst ` set rules \<inter> fst ` set errors = {}" using Cons.prems(3) by auto
      show "''__proto__'' \<notin> fst ` set rules" by (rule nr)
      show "\<And>ps. map_option (set_plain p (rvalue (res p r))) result = Some ps \<Longrightarrow> fst ` set rules \<inter> fst ` set ps = {}"
      proof -
        fix ps assume a: "map_option (set_plain p (rvalue (res p r))) result = Some ps"
        then obtain qs where q: "result = Some qs" "ps = set_plain p (rvalue (res p r)) qs" by auto
        have "p \<notin> fst ` set qs" using Cons.prems(4)[OF q(1)] pr by auto
        then have "ps = qs @ [(p, rvalue (res p r))]" using q(2) np by (simp add: set_plain_fresh)
        moreover have "fst ` set rules \<inter> fst ` set qs = {}" using Cons.prems(4)[OF q(1)] by auto
        ultimately show "fst ` set rules \<inter> fst ` set ps = {}" using notin by auto
      qed
    qed
    moreover have "\<And>qs. result = Some qs \<Longrightarrow> set_plain p (rvalue (res p r)) qs = qs @ [(p, rvalue (res p r))]"
    proof -
      fix qs assume "result = Some qs"
      then have "p \<notin> fst ` set qs" using Cons.prems(4) pr by auto
      then show "set_plain p (rvalue (res p r)) qs = qs @ [(p, rvalue (res p r))]"
        using np by (simp add: set_plain_fresh)
    qed
    ultimately show ?thesis
      using False item pr by (auto split: option.splits)
  qed
qed



lemma isObject_VObj: "isObject (VObj ps)"
  by (simp add: isObject_def typeof_def isArray_def)

lemma inherited_env0: "inherited env0 object p = Object_prototype p"
  by (simp add: env0_def)

lemma not_inherited:
  "Object_prototype ''name'' = None" "Object_prototype ''nick'' = None"
  "Object_prototype ''age'' = None" "Object_prototype ''a'' = None"
  "Object_prototype ''check'' = None"
  by (simp_all add: Object_prototype_def Object_prototype_names_def)


lemma get_prop_absent:
  "p \<notin> fst ` set (props object) \<Longrightarrow> inherited env object p = None \<Longrightarrow>
   get_prop env object p = VUndefined"
  by (simp add: get_prop_def map_of_eq_None_iff [THEN iffD2])



section \<open>The recursion budget\<close>

lemma validate_exhausted:
  "m < 0 \<Longrightarrow> validate env v f (Some r) m = Inr budget_error"
  by (simp add: validate.simps budget_error_def)

lemma has_error_budget: "has_error budget_error"
  by (simp add: has_error_def budget_error_def truthy_err_def DEFAULT_ERROR_def)

lemma validate_nest:
  "validate env (nest_value ks) f (Some (nest_rule ks)) m =
     Inr (if m < int (length ks) then budget_error else \<lparr>rvalue = nest_value ks, rerror = None\<rparr>)"
proof (induction ks arbitrary: f m)
  case Nil
  show ?case
    by (simp add: validate.simps budget_error_def empty_rule_def is_undefined_def validateSimple_def empty_simple_def)
next
  case (Cons k ks)
  show ?case
  proof (cases "m < 0")
    case True
    then show ?thesis by (simp add: validate_exhausted)
  next
    case False
    have e: "has_error budget_error" by (rule has_error_budget)
    have t: "truthy_err (Some (SStr DEFAULT_ERROR))" by (simp add: truthy_err_def DEFAULT_ERROR_def)
    show ?thesis
    proof (cases k)
      case CObject
      then show ?thesis using False e t
        by (simp add: validate.simps [of _ "VObj _"] Cons.IH is_undefined_def isObject_def typeof_def isArray_def
            get_prop_def props_def has_error_def budget_error_def truthy_err_def set_plain_def)
    next
      case CArray
      then show ?thesis using False e t
        by (simp add: validate.simps [of _ "VArr _"] Cons.IH is_undefined_def below_min_def above_max_def
            has_error_def budget_error_def truthy_err_def)
    next
      case CRecord
      then show ?thesis using False e t
        by (simp add: validate.simps [of _ "VObj _"] Cons.IH is_undefined_def isObject_def typeof_def isArray_def
            props_def has_error_def budget_error_def truthy_err_def)
    qed
  qed
qed

lemma validate_object_step:
  assumes "\<not> m < 0" "body r = ObjectRule sch e" "isObject v" "\<not> optional r"
  shows "validate env v f (Some r) m =
     map_sum id fst (validateObject env v (case sch of Some s \<Rightarrow> s | None \<Rightarrow> []) (m - 1))"
  using assms by (subst validate.simps) (simp add: validateObject_def)

lemma validate_cyclic:
  "validate env cyclic_value f (Some cyclic_rule) m = Inr budget_error"
proof (induction "nat (m + 1)" arbitrary: m f)
  case 0
  then have "m < 0" by simp
  then show ?case by (rule validate_exhausted)
next
  case (Suc n)
  then have m: "\<not> m < 0" and n: "n = nat ((m - 1) + 1)" by auto
  have ih: "\<And>f. validate env cyclic_value f (Some cyclic_rule) (m - 1) = Inr budget_error"
    using Suc.hyps(1) [OF n] .
  have v: "cyclic_value = VObj [(''self'', cyclic_value)]" by (rule cyclic_value.code)
  have e: "has_error budget_error" by (rule has_error_budget)
  have g: "get_prop env cyclic_value ''self'' = cyclic_value"
    by (subst v) (simp add: get_prop_def props_def)
  have o: "isObject cyclic_value" "\<not> is_undefined cyclic_value"
    by (subst v, simp add: isObject_def typeof_def isArray_def is_undefined_def)+
  have b: "body cyclic_rule = ObjectRule (Some [(''self'', cyclic_rule)]) None"
    using cyclic_body.code by simp
  have p: "\<not> optional cyclic_rule" by simp
  show ?case
    using e g
    by (subst validate_object_step [OF m b o(1) p])
      (simp add: validateObject_def ih has_error_def budget_error_def truthy_err_def)
qed

lemma isObject_cyclic: "isObject cyclic_value"
  by (subst cyclic_value.code) (rule isObject_VObj)

lemma get_prop_cyclic: "get_prop env cyclic_value ''self'' = cyclic_value"
  by (subst cyclic_value.code) (simp add: get_prop_def props_def)

lemma String_default: "String_of (the (rerror budget_error)) = DEFAULT_ERROR"
  by (simp add: budget_error_def String_of_def)

text \<open>
  C2. \<open>validate\<close> is defined by recursion on the budget alone (its termination measure is
  \<open>maxRecurse + 1\<close>, whatever the value and the rule are, cyclic ones included), so every
  call of \<open>read\<close> returns or throws. The budget starts at 100. A call that finds it below
  zero returns the error \<open>DEFAULT_ERROR\<close>. Each object, array or record level takes one
  unit: a value under \<open>length ks\<close> composite levels validates on budget \<open>m\<close> exactly when
  \<open>length ks \<le> m\<close>, so \<open>read\<close> accepts up to 100 levels below a field and reports an
  error for the field beyond that. A rule and a value that contain themselves give an
  error for the field as well.
\<close>

theorem validation_depth_bounded:
  "MAX_RECURSE = 100 \<and>
   (m < 0 \<longrightarrow> validate env v f (Some r) m = Inr budget_error) \<and>
   has_error budget_error \<and>
   validate env (nest_value ks) f (Some (nest_rule ks)) m =
     Inr (if m < int (length ks) then budget_error else \<lparr>rvalue = nest_value ks, rerror = None\<rparr>) \<and>
   read env [(''root'', nest_rule ks)] (VObj [(''root'', nest_value ks)]) =
     Inr (if 100 < length ks then (VUndefined, [(''root'', Error DEFAULT_ERROR)])
          else (VObj [(''root'', nest_value ks)], [])) \<and>
   read env [(''self'', cyclic_rule)] cyclic_value = Inr (VUndefined, [(''self'', Error DEFAULT_ERROR)])"
proof -
  have a: "MAX_RECURSE = 100" by (rule MAX_RECURSE_def)
  have b: "m < 0 \<longrightarrow> validate env v f (Some r) m = Inr budget_error"
    by (simp add: validate_exhausted)
  have c: "has_error budget_error" by (rule has_error_budget)
  have d: "read env [(''root'', nest_rule ks)] (VObj [(''root'', nest_value ks)]) =
     Inr (if 100 < length ks then (VUndefined, [(''root'', Error DEFAULT_ERROR)])
          else (VObj [(''root'', nest_value ks)], []))"
    using c
    by (simp add: read_def validateObject_def isObject_VObj get_prop_def props_def validate_nest a
        String_default has_error_def truthy_err_def set_plain_def)
  have e: "read env [(''self'', cyclic_rule)] cyclic_value = Inr (VUndefined, [(''self'', Error DEFAULT_ERROR)])"
    using c
    by (simp add: read_def validateObject_def isObject_cyclic get_prop_cyclic validate_cyclic String_default
        set_plain_def)
  show ?thesis using a b c d e validate_nest by simp
qed

theorem validation_depth_bounded_witness:
  "(-1::int) < 0 \<and>
   validate env0 (VStr ''x'') (FName ''name'') (Some name_rule) (-1) = Inr budget_error \<and>
   read env0 [(''root'', nest_rule [CObject, CArray, CRecord])]
     (VObj [(''root'', VObj [(''item'', VArr [VObj [(''key'', VNull)]])])]) =
     Inr (VObj [(''root'', VObj [(''item'', VArr [VObj [(''key'', VNull)]])])], [])"
  using validation_depth_bounded [of "-1" env0 "VStr ''x''" "FName ''name''" name_rule "[CObject, CArray, CRecord]"]
  by simp

section \<open>Exceptions and structured results\<close>

lemma validateObject_loop_throw:
  assumes "\<forall>x f r y. item x f r = Inl y \<longrightarrow> Q y"
    and "validateObject_loop env item object rules result error errors = Inl y"
  shows "Q y"
  using assms(2)
proof (induction rules arbitrary: result error errors)
  case Nil
  then show ?case by simp
next
  case (Cons pr rules)
  obtain p r where pr: "pr = (p, r)" by (cases pr)
  show ?case
  proof (cases "item (get_prop env object p) (FName p) r")
    case (Inl z)
    then show ?thesis using Cons.prems pr assms(1) by auto
  next
    case (Inr v)
    then show ?thesis using Cons.prems pr Cons.IH by (auto split: if_splits)
  qed
qed

lemma validateArray_loop_throw:
  assumes "\<forall>x f r y. item x f r = Inl y \<longrightarrow> Q y"
    and "validateArray_loop item xs i r result = Inl y"
  shows "Q y"
  using assms(2)
proof (induction xs arbitrary: i result)
  case Nil
  then show ?case by simp
next
  case (Cons x xs)
  show ?case
  proof (cases "item x (FIndex i) r")
    case (Inl z)
    then show ?thesis using Cons.prems assms(1) by auto
  next
    case (Inr v)
    then show ?thesis using Cons.prems Cons.IH by (auto split: if_splits)
  qed
qed

lemma validateRecord_loop_throw:
  assumes "\<forall>x f r y. item x f r = Inl y \<longrightarrow> Q y"
    and "validateRecord_loop item kvs r result = Inl y"
  shows "Q y"
  using assms(2)
proof (induction kvs arbitrary: result)
  case Nil
  then show ?case by simp
next
  case (Cons kx kvs)
  obtain k x where kx: "kx = (k, x)" by (cases kx)
  show ?case
  proof (cases "item x (FName k) r")
    case (Inl z)
    then show ?thesis using Cons.prems kx assms(1) by auto
  next
    case (Inr v)
    then show ?thesis using Cons.prems kx Cons.IH by (auto split: if_splits)
  qed
qed

lemma validate_throw_origin:
  "validate env v f (Some r) m = Inl x \<Longrightarrow> validator_throws env x"
proof (induction "nat (m + 1)" arbitrary: m v f r x)
  case 0
  then have "m < 0" by simp
  then show ?case using "0.prems" by (simp add: validate.simps)
next
  case (Suc n)
  then have m: "\<not> m < 0" and n: "n = nat ((m - 1) + 1)" by auto
  have ih: "\<forall>v f r x. validate env v f (Some r) (m - 1) = Inl x \<longrightarrow> validator_throws env x"
    using Suc.hyps(1) [OF n] by blast
  show ?case
  proof (cases "optional r \<and> is_undefined v")
    case True
    then show ?thesis using Suc.prems m by (simp add: validate.simps)
  next
    case False
    show ?thesis
    proof (cases "body r")
      case (Validate k)
      then show ?thesis using Suc.prems m False
        by (auto simp: validate.simps validator_throws_def split: option.splits)
    next
      case (ObjectRule sch e)
      then have "validateObject_loop env (\<lambda>x f r'. validate env x f (Some r') (m - 1)) v
                      (case sch of Some s \<Rightarrow> s | None \<Rightarrow> []) (Some []) None [] = Inl x"
        using Suc.prems m False
        by (cases "validateObject_loop env (\<lambda>x f r'. validate env x f (Some r') (m - 1)) v
                      (case sch of Some s \<Rightarrow> s | None \<Rightarrow> []) (Some []) None []")
           (auto simp: validate.simps split: if_splits)
      then show ?thesis using validateObject_loop_throw [OF ih] by blast
    next
      case (ArrayRule items e mn mx)
      then obtain xs where "validateArray_loop (\<lambda>x f r'. validate env x f (Some r') (m - 1))
                             xs 0 (case items of Some i \<Rightarrow> i | None \<Rightarrow> empty_rule) [] = Inl x"
        using Suc.prems m False
        by (cases v) (auto simp: validate.simps split: if_splits)
      then show ?thesis using validateArray_loop_throw [OF ih] by blast
    next
      case (RecordRule vals e)
      then have "validateRecord_loop (\<lambda>x f r'. validate env x f (Some r') (m - 1))
                        (props v) (case vals of Some i \<Rightarrow> i | None \<Rightarrow> empty_rule) [] = Inl x"
        using Suc.prems m False
        by (auto simp: validate.simps split: if_splits)
      then show ?thesis using validateRecord_loop_throw [OF ih] by blast
    next
      case (SimpleRule s)
      then show ?thesis using Suc.prems m False by (simp add: validate.simps)
    qed
  qed
qed

lemma read_throw_origin:
  "read env schema object = Inl x \<Longrightarrow> validator_throws env x"
proof -
  assume a: "read env schema object = Inl x"
  then have "validateObject_loop env (\<lambda>x f r. validate env x f (Some r) MAX_RECURSE) object schema (Some []) None [] = Inl x"
    by (cases "validateObject env object schema MAX_RECURSE")
       (auto simp: read_def validateObject_def split: if_splits)
  moreover have "\<forall>v f r x. validate env v f (Some r) MAX_RECURSE = Inl x \<longrightarrow> validator_throws env x"
    using validate_throw_origin by blast
  ultimately show ?thesis
    by (rule validateObject_loop_throw [rotated])
qed

text \<open>
  C5 (amended). \<open>read\<close> and \<open>readField\<close> throw nothing for a value that fails validation:
  an exception that leaves \<open>read\<close> is the \<open>TypeError\<close> for a \<open>validate\<close> property that is not
  a function or was thrown by a custom validator, and \<open>readField\<close> can also throw the
  \<open>RangeError\<close> for a field without a rule (a name that neither the schema nor
  \<open>Object.prototype\<close> has). \<open>readField\<close> otherwise returns a pair of which
  at most one part is defined: the error when validation of the field fails, and the
  validated value (which may be \<open>undefined\<close>) when it succeeds.
\<close>

theorem reader_results_structured:
  "(read env schema object = Inl x \<longrightarrow> validator_throws env x) \<and>
   (readField env schema object field = Inl x \<longrightarrow>
      (schema_lookup schema field = None \<and> x = ThrowError (RangeError [])) \<or> validator_throws env x) \<and>
   (readField env schema object field = Inr (v, e) \<longrightarrow> v = VUndefined \<or> e = None) \<and>
   (isObject object \<and>
    validate env (get_prop env object field) (FName field) (schema_lookup schema field) MAX_RECURSE = Inr res \<longrightarrow>
      readField env schema object field =
        Inr (if has_error res then (VUndefined, Some (Error (String_of (the (rerror res)))))
             else (rvalue res, None)))"
proof -
  have a: "read env schema object = Inl x \<longrightarrow> validator_throws env x"
    using read_throw_origin by blast
  have b: "readField env schema object field = Inl x \<longrightarrow>
      (schema_lookup schema field = None \<and> x = ThrowError (RangeError [])) \<or> validator_throws env x"
  proof
    assume t: "readField env schema object field = Inl x"
    then have v: "validate env (get_prop env object field) (FName field) (schema_lookup schema field) MAX_RECURSE = Inl x"
      by (auto simp: readField_def split: if_splits sum.splits)
    show "(schema_lookup schema field = None \<and> x = ThrowError (RangeError [])) \<or> validator_throws env x"
    proof (cases "schema_lookup schema field")
      case None
      then show ?thesis using v by (simp add: validate.simps)
    next
      case (Some r)
      then show ?thesis using v validate_throw_origin by simp
    qed
  qed
  have c: "readField env schema object field = Inr (v, e) \<longrightarrow> v = VUndefined \<or> e = None"
    by (auto simp: readField_def split: if_splits sum.splits)
  have d: "isObject object \<and>
    validate env (get_prop env object field) (FName field) (schema_lookup schema field) MAX_RECURSE = Inr res \<longrightarrow>
      readField env schema object field =
        Inr (if has_error res then (VUndefined, Some (Error (String_of (the (rerror res)))))
             else (rvalue res, None))"
    by (simp add: readField_def)
  show ?thesis using a b c d by blast
qed

lemma validate_name_short:
  "validate env0 (VStr ''A'') (FName ''name'') (Some name_rule) MAX_RECURSE = Inr budget_error"
  by (simp add: name_rule_def validate.simps MAX_RECURSE_def is_undefined_def validateSimple_def
      empty_simple_def check_string_def below_min_def above_max_def js_length_def makeError_def
      err_or_def truthy_err_def lim_err_def budget_error_def)

theorem reader_results_structured_witness:
  "read env_throwing [(''a'', Rule False (Validate 0))] (VObj []) = Inl (ThrowOther ''boom'') \<and>
   validator_throws env_throwing (ThrowOther ''boom'') \<and>
   readField env0 name_schema (VObj [(''name'', VStr ''A'')]) ''age'' = Inl (ThrowError (RangeError [])) \<and>
   readField env0 name_schema (VObj [(''name'', VStr ''A'')]) ''name'' =
     Inr (VUndefined, Some (Error ''ObjectReader error''))"
proof -
  let ?o = "VObj [(''name'', VStr ''A'')]"
  have t: "read env_throwing [(''a'', Rule False (Validate 0))] (VObj []) = Inl (ThrowOther ''boom'')"
    by (simp add: read_def validateObject_def isObject_VObj validate.simps MAX_RECURSE_def
        env_throwing_def get_prop_def props_def inherited_env0 not_inherited is_undefined_def)
  have r: "readField env0 name_schema ?o ''age'' = Inl (ThrowError (RangeError []))"
    by (simp add: readField_def isObject_VObj name_schema_def validate.simps schema_lookup_def
        Object_prototype_names_def)
  have g: "get_prop env0 ?o ''name'' = VStr ''A''" by (simp add: get_prop_def props_def)
  have m: "schema_lookup name_schema ''name'' = Some name_rule"
    by (simp add: name_schema_def schema_lookup_def)
  have f: "isObject ?o \<and> validate env0 (get_prop env0 ?o ''name'') (FName ''name'') (schema_lookup name_schema ''name'') MAX_RECURSE =
      Inr budget_error"
    by (simp add: isObject_VObj g m validate_name_short)
  show ?thesis
    using reader_results_structured [of env_throwing "[(''a'', Rule False (Validate 0))]" "VObj []" "ThrowOther ''boom''"
        "''a''" VUndefined None budget_error]
      reader_results_structured [of env0 name_schema ?o "ThrowError (RangeError [])" "''name''" VUndefined
        "Some (Error ''ObjectReader error'')" budget_error]
      t r f has_error_budget
    by (simp add: String_default DEFAULT_ERROR_def)
qed

text \<open>
  For an optional field that the input does not have, \<open>readField\<close> returns neither a value
  nor an error: "exactly one of the two is defined" fails.
\<close>

theorem readField_both_undefined:
  "readField env0 [(''nick'', nick_rule)] (VObj []) ''nick'' = Inr (VUndefined, None)"
  by (simp add: readField_def isObject_VObj get_prop_def props_def inherited_env0 not_inherited
      schema_lookup_def validate.simps MAX_RECURSE_def nick_rule_def is_undefined_def has_error_def
      truthy_err_def)

section \<open>JSON text\<close>

text \<open>
  C8 (amended). When \<open>JSON.parse\<close> throws, \<open>readJSONString\<close> returns \<open>undefined\<close> and the
  thrown error under the single key \<open>_\<close> (an \<open>Error\<close> instance, such as the \<open>SyntaxError\<close> of
  \<open>JSON.parse\<close>, as it is; anything else as \<open>Error(String(err))\<close>); the schema plays no part.
  When the text parses and \<open>read\<close> returns for the parsed value, \<open>readJSONString\<close> returns
  the same tuple. When the text parses and \<open>read\<close> throws, which only a \<open>validate\<close>
  property makes it do, the \<open>try\<close> block catches that exception too and \<open>readJSONString\<close>
  returns \<open>undefined\<close> with the exception under \<open>_\<close>.
\<close>

theorem readJSONString_result:
  "(JSON_parse env json = Inl x \<longrightarrow>
      readJSONString env schema json = (VUndefined, [(''_'', caught_error x)])) \<and>
   caught_error (ThrowError e) = e \<and>
   caught_error (ThrowOther msg) = Error msg \<and>
   (JSON_parse env json = Inr object \<and> read env schema object = Inr result \<longrightarrow>
      readJSONString env schema json = result) \<and>
   (JSON_parse env json = Inr object \<and> read env schema object = Inl y \<longrightarrow>
      readJSONString env schema json = (VUndefined, [(''_'', caught_error y)]) \<and>
      validator_throws env y)"
proof -
  have "read env schema object = Inl y \<longrightarrow> validator_throws env y"
    using read_throw_origin by blast
  then show ?thesis
    by (simp add: readJSONString_def caught_error_def)
qed

lemma read_check_throws:
  "read env_throwing [(''check'', Rule False (Validate 0))] (VObj []) = Inl (ThrowOther ''boom'')"
  by (simp add: read_def validateObject_def isObject_VObj validate.simps MAX_RECURSE_def
      env_throwing_def get_prop_def props_def inherited_env0 not_inherited is_undefined_def)

lemma JSON_parse_examples:
  "JSON_parse env0 ''{bad json'' = Inl (ThrowError (SyntaxError ''Unexpected token''))"
  "JSON_parse env0 ''{}'' = Inr (VObj [])"
  "JSON_parse env_throwing ''{}'' = Inr (VObj [])"
  by (simp_all add: env0_def env_throwing_def)

theorem readJSONString_result_witness:
  "readJSONString env0 name_schema ''{bad json'' = (VUndefined, [(''_'', SyntaxError ''Unexpected token'')]) \<and>
   readJSONString env0 name_schema ''{}'' = (VUndefined, [(''name'', Error ''ObjectReader error'')]) \<and>
   readJSONString env_throwing [(''check'', Rule False (Validate 0))] ''{}'' =
     (VUndefined, [(''_'', Error ''boom'')])"
proof -
  have r: "read env0 name_schema (VObj []) = Inr (VUndefined, [(''name'', Error ''ObjectReader error'')])"
    by (simp add: read_def validateObject_def isObject_VObj name_schema_def name_rule_def validate.simps
        MAX_RECURSE_def get_prop_def props_def inherited_env0 not_inherited is_undefined_def
        validateSimple_def empty_simple_def check_string_def makeError_def err_or_def truthy_err_def
        has_error_def String_of_def DEFAULT_ERROR_def set_plain_def)
  show ?thesis
    using readJSONString_result [where env = env0 and json = "''{bad json''"
        and x = "ThrowError (SyntaxError ''Unexpected token'')" and schema = name_schema
        and e = "SyntaxError ''Unexpected token''" and msg = "''boom''"]
      readJSONString_result [where env = env0 and json = "''{}''" and schema = name_schema
        and object = "VObj []" and result = "(VUndefined, [(''name'', Error ''ObjectReader error'')])"
        and msg = "''boom''"]
      readJSONString_result [where env = env_throwing and json = "''{}''"
        and schema = "[(''check'', Rule False (Validate 0))]" and object = "VObj []"
        and y = "ThrowOther ''boom''" and msg = "''boom''"]
      JSON_parse_examples r read_check_throws
    by simp
qed

text \<open>
  The text \<open>{}\<close> parses, and \<open>read\<close> throws for the parsed value because the custom
  validator of the schema does; \<open>readJSONString\<close> returns a tuple all the same, which is
  not what \<open>read\<close> gives.
\<close>

theorem readJSONString_catches_read:
  "JSON_parse env_throwing ''{}'' = Inr (VObj []) \<and>
   read env_throwing [(''check'', Rule False (Validate 0))] (VObj []) = Inl (ThrowOther ''boom'') \<and>
   readJSONString env_throwing [(''check'', Rule False (Validate 0))] ''{}'' =
     (VUndefined, [(''_'', Error ''boom'')])"
  by (simp add: JSON_parse_examples read_check_throws readJSONString_def caught_error_def)

section \<open>Fields of the result\<close>

lemma validateObject_loop_cong:
  assumes "\<And>p. p \<in> fst ` set rules \<Longrightarrow> get_prop env o1 p = get_prop env o2 p"
  shows "validateObject_loop env item o1 rules result error errors =
         validateObject_loop env item o2 rules result error errors"
  using assms
proof (induction rules arbitrary: result error errors)
  case Nil
  show ?case by simp
next
  case (Cons pr rules)
  obtain p r where pr: "pr = (p, r)" by (cases pr)
  have g: "get_prop env o1 p = get_prop env o2 p" using Cons.prems pr by simp
  have ih: "\<And>result error errors. validateObject_loop env item o1 rules result error errors =
         validateObject_loop env item o2 rules result error errors"
    using Cons.IH Cons.prems by simp
  show ?case by (simp add: pr g ih split: sum.splits)
qed

lemma validateObject_loop_items_return:
  assumes "validateObject_loop env item object rules result error errors = Inr z"
    and "(p, r) \<in> set rules"
  shows "\<exists>v. item (get_prop env object p) (FName p) r = Inr v"
  using assms
proof (induction rules arbitrary: result error errors)
  case Nil
  then show ?case by simp
next
  case (Cons qs rules)
  obtain q s where qs: "qs = (q, s)" by (cases qs)
  show ?case
  proof (cases "item (get_prop env object q) (FName q) s")
    case (Inl x)
    then show ?thesis using Cons.prems qs by simp
  next
    case (Inr v)
    show ?thesis
    proof (cases "(p, r) = (q, s)")
      case True
      then show ?thesis using Inr by auto
    next
      case False
      then have "(p, r) \<in> set rules" using Cons.prems(2) qs by auto
      then show ?thesis using Cons.prems(1) Cons.IH Inr qs by (auto split: if_splits)
    qed
  qed
qed

lemma truthy_default: "truthy_err (err_or a (Some (SStr DEFAULT_ERROR)))"
  by (simp add: err_or_def truthy_err_def DEFAULT_ERROR_def)

lemma has_error_makeError: "has_error (makeError a b)"
  by (simp add: has_error_def makeError_def truthy_default)

lemma validate_undefined_optional:
  "\<not> m < 0 \<Longrightarrow> optional r \<Longrightarrow>
   validate env VUndefined f (Some r) m = Inr \<lparr>rvalue = VUndefined, rerror = None\<rparr>"
  by (simp add: validate.simps is_undefined_def)

lemma validateSimple_undefined:
  assumes "r_boolean s \<noteq> None \<or> r_string s \<noteq> None \<or> r_number s \<noteq> None \<or> r_date s \<noteq> None"
  shows "has_error (validateSimple env VUndefined s)"
proof -
  have b: "\<And>b. check_boolean b VUndefined = Inl (makeError (b_err b) None)"
    by (simp add: check_boolean_def typeof_def)
  have s: "\<And>t. check_string t VUndefined = Inl (makeError (s_err t) None)"
    by (simp add: check_string_def)
  have n: "\<And>t. check_number env t VUndefined = Inl (makeError (n_err t) None)"
    by (simp add: check_number_def)
  have d: "\<And>t. check_date env t VUndefined = Inl (makeError (d_err t) None)"
    by (simp add: check_date_def)
  show ?thesis
    using assms
    by (auto simp: validateSimple_def b s n d has_error_makeError split: option.splits)
qed

lemma validate_undefined_required:
  assumes "\<not> optional r" "requires_value r"
  shows "\<exists>res. validate env VUndefined f (Some r) m = Inr res \<and> has_error res"
proof (cases "m < 0")
  case True
  then show ?thesis by (simp add: validate_exhausted has_error_budget)
next
  case False
  have o: "\<not> isObject VUndefined" by (simp add: isObject_def typeof_def)
  show ?thesis
  proof (cases "body r")
    case (Validate k)
    then show ?thesis using assms by (simp add: requires_value_def)
  next
    case (ObjectRule sch e)
    then show ?thesis using assms False o by (simp add: validate.simps has_error_makeError)
  next
    case (ArrayRule items e mn mx)
    then show ?thesis using assms False by (simp add: validate.simps has_error_makeError)
  next
    case (RecordRule vals e)
    then show ?thesis using assms False o by (simp add: validate.simps has_error_makeError)
  next
    case (SimpleRule s)
    then show ?thesis using assms False
      by (simp add: validate.simps requires_value_def validateSimple_undefined)
  qed
qed

lemma read_parsed_keys:
  assumes "distinct (map fst schema)"
    and "read env schema object = Inr (parsed, errors)"
    and "isObject object"
    and "''__proto__'' \<notin> fst ` set schema"
  shows "fst ` set errors \<subseteq> fst ` set schema \<and>
         (parsed \<noteq> VUndefined \<longrightarrow> (\<exists>ps. parsed = VObj ps \<and> map fst ps = map fst schema))"
proof -
  let ?item = "\<lambda>x f r. validate env x f (Some r) MAX_RECURSE"
  obtain z where z: "validateObject_loop env ?item object schema (Some []) None [] = Inr z"
    using assms(2,3)
    by (cases "validateObject_loop env ?item object schema (Some []) None []")
       (auto simp: read_def validateObject_def)
  have "\<forall>pr \<in> set schema. \<exists>v. ?item (get_prop env object (fst pr)) (FName (fst pr)) (snd pr) = Inr v"
    using validateObject_loop_items_return [OF z] by auto
  then obtain g where g: "\<forall>pr \<in> set schema. ?item (get_prop env object (fst pr)) (FName (fst pr)) (snd pr) = Inr (g pr)"
    by (rule bchoice [THEN exE])
  define res where "res = (\<lambda>p r. g (p, r))"
  have "\<And>p r. (p, r) \<in> set schema \<Longrightarrow> ?item (get_prop env object p) (FName p) r = Inr (res p r)"
    using g by (auto simp: res_def)
  from validateObject_loop_result [where item = ?item and res = res and result = "Some []" and errors = "[]" and error = None, OF this assms(1)]
  have "validateObject_loop env ?item object schema (Some []) None [] =
     Inr (\<lparr>rvalue =
            (if list_ex (\<lambda>(p, r). has_error (res p r)) schema then VUndefined
             else VObj (map (\<lambda>(p, r). (p, rvalue (res p r))) schema)),
           rerror =
            (if truthy_err None then None
             else (case filter (\<lambda>(p, r). has_error (res p r)) schema of
                     [] \<Rightarrow> None | (p, r) # _ \<Rightarrow> rerror (res p r)))\<rparr>,
          map (\<lambda>(p, r). (p, Error (String_of (the (rerror (res p r))))))
                     (filter (\<lambda>(p, r). has_error (res p r)) schema))"
    using assms(4) by simp
  then have "parsed = (if list_ex (\<lambda>(p, r). has_error (res p r)) schema then VUndefined
             else VObj (map (\<lambda>(p, r). (p, rvalue (res p r))) schema))"
    and "errors = map (\<lambda>(p, r). (p, Error (String_of (the (rerror (res p r))))))
                     (filter (\<lambda>(p, r). has_error (res p r)) schema)"
    using assms(2,3) by (auto simp: read_def validateObject_def)
  then have p: "parsed \<noteq> VUndefined \<longrightarrow> (\<exists>ps. parsed = VObj ps \<and> map fst ps = map fst schema)"
    and e: "set errors \<subseteq> (\<lambda>(p, r). (p, Error (String_of (the (rerror (res p r)))))) ` set schema"
    by (auto split: if_splits simp: comp_def case_prod_unfold)
  have "fst ` set errors \<subseteq> fst ` set schema"
  proof
    fix k assume "k \<in> fst ` set errors"
    then obtain x where "(k, x) \<in> set errors" by auto
    then obtain q r where "(q, r) \<in> set schema" "(k, x) = (q, Error (String_of (the (rerror (res q r)))))"
      using e by auto
    then show "k \<in> fst ` set schema" by force
  qed
  then show ?thesis using p by simp
qed

lemma read_agree:
  assumes "isObject o1" "isObject o2"
    and "\<And>k. k \<in> fst ` set schema \<Longrightarrow> get_prop env o1 k = get_prop env o2 k"
  shows "read env schema o1 = read env schema o2"
  using assms(1,2) validateObject_loop_cong [of schema env o1 o2, OF assms(3)]
  by (simp add: read_def validateObject_def)

lemma same_value_zero_undefined: "same_value_zero env x VUndefined = is_undefined x"
  by (cases x) (simp_all add: same_value_zero_def is_primitive_def is_undefined_def)

lemma validate_undefined_unconstrained:
  assumes "\<not> m < 0" "\<not> optional r" "body r = SimpleRule s"
    and "r_boolean s = None" "r_string s = None" "r_number s = None" "r_date s = None"
  shows "validate env VUndefined f (Some r) m =
     Inr (case r_value s of
            None \<Rightarrow> \<lparr>rvalue = VUndefined, rerror = None\<rparr>
          | Some c \<Rightarrow>
              if list_ex is_undefined (case v_match c of Some xs \<Rightarrow> xs | None \<Rightarrow> [])
              then \<lparr>rvalue = VUndefined, rerror = None\<rparr>
              else makeError (v_err c) None)"
  using assms
  by (simp add: validate.simps validateSimple_def check_value_def Array_includes_def
      same_value_zero_undefined split: option.splits)

lemma validate_undefined_validator:
  assumes "\<not> m < 0" "\<not> optional r" "body r = Validate n"
  shows "validate env VUndefined f (Some r) m =
     (case validators env n of
        None \<Rightarrow> Inl (ThrowError (TypeError []))
      | Some g \<Rightarrow> g VUndefined (field_or_underscore f))"
  using assms by (simp add: validate.simps)

text \<open>
  C10 (amended). For a schema with distinct keys, none of them \<open>__proto__\<close>: the errors of
  \<open>read\<close> on an object are keyed by fields of the schema, and a parsed object has exactly
  the keys of the schema, in their order. Properties of the input that the schema does
  not name change nothing: two objects that give the same values for the keys of the
  schema give the same result. A field that the input lacks, and that its prototype
  chain does not have either, is validated as \<open>undefined\<close>. That passes, with the value
  \<open>undefined\<close>, when the rule is optional. When the rule is not optional, it fails for an
  object, array or record rule and for a simple rule with a boolean, string, number or
  date constraint; for a simple rule with none of these it passes exactly when the rule
  has no \<open>value\<close> constraint (as \<open>{}\<close>) or the values of that constraint include
  \<open>undefined\<close>; and for a custom validator the result is what the validator returns.
\<close>

theorem read_result_keys:
  assumes "distinct (map fst schema)" and "''__proto__'' \<notin> fst ` set schema"
  shows "(isObject object \<and> read env schema object = Inr (parsed, errors) \<longrightarrow>
           fst ` set errors \<subseteq> fst ` set schema \<and>
           (parsed \<noteq> VUndefined \<longrightarrow> (\<exists>ps. parsed = VObj ps \<and> map fst ps = map fst schema))) \<and>
         (isObject o1 \<and> isObject o2 \<and>
          (\<forall>k \<in> fst ` set schema. get_prop env o1 k = get_prop env o2 k) \<longrightarrow>
            read env schema o1 = read env schema o2) \<and>
         (p \<notin> fst ` set (props object) \<and> inherited env object p = None \<longrightarrow>
            get_prop env object p = VUndefined) \<and>
         (optional r \<longrightarrow>
            validate env VUndefined f (Some r) MAX_RECURSE = Inr \<lparr>rvalue = VUndefined, rerror = None\<rparr>) \<and>
         (\<not> optional r \<and> requires_value r \<longrightarrow>
            (\<exists>res. validate env VUndefined f (Some r) MAX_RECURSE = Inr res \<and> has_error res)) \<and>
         (\<not> optional r \<and> body r = SimpleRule s \<and> r_boolean s = None \<and> r_string s = None \<and>
          r_number s = None \<and> r_date s = None \<longrightarrow>
            validate env VUndefined f (Some r) MAX_RECURSE =
              Inr (case r_value s of
                     None \<Rightarrow> \<lparr>rvalue = VUndefined, rerror = None\<rparr>
                   | Some c \<Rightarrow>
                       if list_ex is_undefined (case v_match c of Some xs \<Rightarrow> xs | None \<Rightarrow> [])
                       then \<lparr>rvalue = VUndefined, rerror = None\<rparr>
                       else makeError (v_err c) None)) \<and>
         (\<not> optional r \<and> body r = Validate n \<longrightarrow>
            validate env VUndefined f (Some r) MAX_RECURSE =
              (case validators env n of
                 None \<Rightarrow> Inl (ThrowError (TypeError []))
               | Some g \<Rightarrow> g VUndefined (field_or_underscore f)))"
proof -
  have a: "isObject object \<and> read env schema object = Inr (parsed, errors) \<longrightarrow>
           fst ` set errors \<subseteq> fst ` set schema \<and>
           (parsed \<noteq> VUndefined \<longrightarrow> (\<exists>ps. parsed = VObj ps \<and> map fst ps = map fst schema))"
    using read_parsed_keys [OF assms(1) _ _ assms(2)] by blast
  have b: "isObject o1 \<and> isObject o2 \<and>
          (\<forall>k \<in> fst ` set schema. get_prop env o1 k = get_prop env o2 k) \<longrightarrow>
            read env schema o1 = read env schema o2"
    using read_agree [of o1 o2 schema env] by blast
  have c: "p \<notin> fst ` set (props object) \<and> inherited env object p = None \<longrightarrow>
            get_prop env object p = VUndefined"
    by (simp add: get_prop_absent)
  have m: "\<not> MAX_RECURSE < 0" by (simp add: MAX_RECURSE_def)
  have d: "optional r \<longrightarrow>
            validate env VUndefined f (Some r) MAX_RECURSE = Inr \<lparr>rvalue = VUndefined, rerror = None\<rparr>"
    by (simp add: validate_undefined_optional m)
  have e: "\<not> optional r \<and> requires_value r \<longrightarrow>
            (\<exists>res. validate env VUndefined f (Some r) MAX_RECURSE = Inr res \<and> has_error res)"
    using validate_undefined_required by blast
  have g: "\<not> optional r \<and> body r = SimpleRule s \<and> r_boolean s = None \<and> r_string s = None \<and>
          r_number s = None \<and> r_date s = None \<longrightarrow>
            validate env VUndefined f (Some r) MAX_RECURSE =
              Inr (case r_value s of
                     None \<Rightarrow> \<lparr>rvalue = VUndefined, rerror = None\<rparr>
                   | Some c \<Rightarrow>
                       if list_ex is_undefined (case v_match c of Some xs \<Rightarrow> xs | None \<Rightarrow> [])
                       then \<lparr>rvalue = VUndefined, rerror = None\<rparr>
                       else makeError (v_err c) None)"
    using validate_undefined_unconstrained [OF m] by blast
  have h: "\<not> optional r \<and> body r = Validate n \<longrightarrow>
            validate env VUndefined f (Some r) MAX_RECURSE =
              (case validators env n of
                 None \<Rightarrow> Inl (ThrowError (TypeError []))
               | Some g \<Rightarrow> g VUndefined (field_or_underscore f))"
    using validate_undefined_validator [OF m] by blast
  show ?thesis using a b c d e g h by blast
qed

text \<open>
  The rule \<open>{}\<close> is not optional, yet a field with this rule that the input lacks passes
  as \<open>undefined\<close>: "only when its rule is marked optional" fails.
\<close>

theorem read_accepts_undefined_without_optional:
  "read env0 [(''a'', empty_rule)] (VObj []) = Inr (VObj [(''a'', VUndefined)], []) \<and>
   \<not> optional empty_rule"
  by (simp add: read_def validateObject_def isObject_VObj get_prop_def props_def inherited_env0
      not_inherited validate.simps MAX_RECURSE_def empty_rule_def is_undefined_def validateSimple_def
      empty_simple_def has_error_def truthy_err_def set_plain_def)

theorem read_result_keys_witness:
  "read env0 [(''name'', name_rule), (''nick'', nick_rule)]
     (VObj [(''name'', VStr ''Al''), (''age'', VNum (Fin 3))]) =
     Inr (VObj [(''name'', VStr ''Al''), (''nick'', VUndefined)], []) \<and>
   (\<exists>ps. VObj [(''name'', VStr ''Al''), (''nick'', VUndefined)] = VObj ps \<and>
         map fst ps = [''name'', ''nick'']) \<and>
   read env0 [(''name'', name_rule), (''nick'', nick_rule)]
     (VObj [(''name'', VStr ''Al''), (''age'', VNum (Fin 3))]) =
   read env0 [(''name'', name_rule), (''nick'', nick_rule)] (VObj [(''name'', VStr ''Al'')]) \<and>
   get_prop env0 (VObj [(''name'', VStr ''Al''), (''age'', VNum (Fin 3))]) ''nick'' = VUndefined \<and>
   validate env0 VUndefined (FName ''nick'') (Some nick_rule) MAX_RECURSE =
     Inr \<lparr>rvalue = VUndefined, rerror = None\<rparr> \<and>
   (\<exists>res. validate env0 VUndefined (FName ''name'') (Some name_rule) MAX_RECURSE = Inr res \<and>
          has_error res) \<and>
   validate env0 VUndefined (FName ''a'') (Some empty_rule) MAX_RECURSE =
     Inr \<lparr>rvalue = VUndefined, rerror = None\<rparr> \<and>
   validate env0 VUndefined (FName ''a'')
     (Some (Rule False (SimpleRule (empty_simple\<lparr>r_value := Some \<lparr>v_match = Some [VStr ''x''], v_err = None\<rparr>\<rparr>))))
     MAX_RECURSE = Inr \<lparr>rvalue = VUndefined, rerror = Some (SStr ''ObjectReader error'')\<rparr> \<and>
   validate env_throwing VUndefined (FName ''check'') (Some (Rule False (Validate 0))) MAX_RECURSE =
     Inl (ThrowOther ''boom'')"
proof -
  let ?schema = "[(''name'', name_rule), (''nick'', nick_rule)]"
  let ?only_x = "empty_simple\<lparr>r_value := Some \<lparr>v_match = Some [VStr ''x''], v_err = None\<rparr>\<rparr>"
  let ?input = "[(''name'', VStr ''Al''), (''age'', VNum (Fin 3))]"
  let ?small = "[(''name'', VStr ''Al'')]"
  let ?parsed = "VObj [(''name'', VStr ''Al''), (''nick'', VUndefined)]"
  have d: "distinct (map fst ?schema)" "''__proto__'' \<notin> fst ` set ?schema" by simp_all
  have o: "isObject (VObj ?input)" "isObject (VObj ?small)" by (rule isObject_VObj)+
  have r: "read env0 ?schema (VObj ?input) = Inr (?parsed, [])"
    by (simp add: read_def validateObject_def isObject_VObj name_rule_def nick_rule_def validate.simps
        MAX_RECURSE_def get_prop_def props_def inherited_env0 not_inherited is_undefined_def
        validateSimple_def empty_simple_def check_string_def below_min_def above_max_def js_length_def
        has_error_def truthy_err_def set_plain_def)
  have g: "\<forall>k \<in> fst ` set ?schema. get_prop env0 (VObj ?input) k = get_prop env0 (VObj ?small) k"
    by (simp add: get_prop_def props_def inherited_env0)
  have a: "''nick'' \<notin> fst ` set (props (VObj ?input))" "inherited env0 (VObj ?input) ''nick'' = None"
    by (simp_all add: props_def inherited_env0 not_inherited)
  have n: "optional nick_rule" "\<not> optional name_rule" "requires_value name_rule"
    by (simp_all add: nick_rule_def name_rule_def requires_value_def empty_simple_def)
  have e: "\<not> optional empty_rule" "body empty_rule = SimpleRule empty_simple"
    "r_boolean empty_simple = None" "r_string empty_simple = None" "r_number empty_simple = None"
    "r_date empty_simple = None" "r_value empty_simple = None"
    by (simp_all add: empty_rule_def empty_simple_def)
  show ?thesis
    using read_result_keys [OF d, where object = "VObj ?input" and env = env0 and parsed = ?parsed
        and errors = "[]" and ?o1.0 = "VObj ?input" and ?o2.0 = "VObj ?small" and p = "''nick''"
        and r = nick_rule and f = "FName ''nick''"]
      read_result_keys [OF d, where object = "VObj ?input" and env = env0 and parsed = ?parsed
        and errors = "[]" and ?o1.0 = "VObj ?input" and ?o2.0 = "VObj ?small" and p = "''nick''"
        and r = name_rule and f = "FName ''name''"]
      read_result_keys [OF d, where object = "VObj ?input" and env = env0 and parsed = ?parsed
        and errors = "[]" and ?o1.0 = "VObj ?input" and ?o2.0 = "VObj ?small" and p = "''nick''"
        and r = empty_rule and f = "FName ''a''" and s = empty_simple]
      read_result_keys [OF d, where object = "VObj ?input" and env = env0 and parsed = ?parsed
        and errors = "[]" and ?o1.0 = "VObj ?input" and ?o2.0 = "VObj ?small" and p = "''nick''"
        and r = "Rule False (SimpleRule ?only_x)" and f = "FName ''a''" and s = ?only_x]
      read_result_keys [OF d, where object = "VObj ?input" and env = env_throwing and parsed = ?parsed
        and errors = "[]" and ?o1.0 = "VObj ?input" and ?o2.0 = "VObj ?input" and p = "''nick''"
        and r = "Rule False (Validate 0)" and f = "FName ''check''" and n = 0]
      o r g a n e
    by (simp add: empty_simple_def is_undefined_def makeError_def err_or_def truthy_err_def
        DEFAULT_ERROR_def env_throwing_def field_or_underscore_def)
qed

text \<open>
  What the prototype chain does to a field that the input lacks: a plain object has a
  \<open>constructor\<close>, so an optional string field of that name fails on the empty object.
\<close>

lemma read_inherited_constructor:
  "read env0 [(''constructor'', nick_rule)] (VObj []) =
     Inr (VUndefined, [(''constructor'', Error ''ObjectReader error'')])"
  by (simp add: read_def validateObject_def isObject_VObj get_prop_def props_def inherited_env0
      Object_prototype_def Object_prototype_names_def validate.simps MAX_RECURSE_def nick_rule_def
      is_undefined_def validateSimple_def empty_simple_def check_string_def makeError_def err_or_def
      truthy_err_def has_error_def String_of_def DEFAULT_ERROR_def set_plain_def)

text \<open>
  A schema with a field named \<open>__proto__\<close>: the field validates, and the parsed object
  has no property of that name.
\<close>

lemma read_proto_key:
  "read env0 [(''__proto__'', empty_rule)] (VObj []) = Inr (VObj [], [])"
  by (simp add: read_def validateObject_def isObject_VObj get_prop_def props_def inherited_env0
      Object_prototype_def validate.simps MAX_RECURSE_def empty_rule_def is_undefined_def
      validateSimple_def empty_simple_def has_error_def truthy_err_def set_plain_def)

section \<open>The constructor freezes the event\<close>

lemma construct_ManagedEvent_result:
  "construct_ManagedEvent no_data s name source data delegate inner_event noPropagation =
     Inr (length s, s @ [event_object no_data name source data delegate inner_event noPropagation])"
  by (simp add: construct_ManagedEvent_def new_object_def set_prop_def Object_freeze_def
      event_object_def nth_append)

lemma apply_mutation_length: "length s \<le> length (apply_mutation s m)"
  by (cases m) (auto simp: apply_mutation_def set_prop_def delete_prop_def Object_freeze_def
      new_object_def)

lemma apply_mutation_frozen:
  assumes "a < length s" "h_frozen (s ! a)"
  shows "apply_mutation s m ! a = s ! a"
proof (cases m)
  case (SetProp b k v)
  then show ?thesis using assms
    by (cases "b = a") (auto simp: apply_mutation_def set_prop_def)
next
  case (DeleteProp b k)
  then show ?thesis using assms
    by (cases "b = a") (auto simp: apply_mutation_def delete_prop_def)
next
  case (Freeze b)
  then show ?thesis using assms
    by (cases "b = a") (auto simp: apply_mutation_def Object_freeze_def)
next
  case NewObject
  then show ?thesis using assms
    by (simp add: apply_mutation_def new_object_def nth_append)
qed

lemma mutations_frozen:
  assumes "a < length s" "h_frozen (s ! a)"
  shows "a < length (foldl apply_mutation s ms) \<and> foldl apply_mutation s ms ! a = s ! a"
  using assms
proof (induction ms arbitrary: s)
  case Nil
  then show ?case by simp
next
  case (Cons m ms)
  have l: "a < length (apply_mutation s m)"
    using Cons.prems(1) apply_mutation_length [of s m] by simp
  have e: "apply_mutation s m ! a = s ! a"
    using Cons.prems by (rule apply_mutation_frozen)
  have f: "h_frozen (apply_mutation s m ! a)" using e Cons.prems(2) by simp
  show ?case using Cons.IH [OF l f] e by simp
qed

text \<open>
  C6. In a store where \<open>NO_DATA\<close> is the frozen empty object, the constructor returns a
  new object whose six properties are its arguments, with \<open>NO_DATA\<close> itself for \<open>data\<close>
  when that argument is left out (or falsy), and which is frozen: every assignment to
  it throws, a \<open>delete\<close> of one of its six properties throws and a \<open>delete\<close> of any
  other name leaves the store as it is, and whatever steps run on the store afterwards,
  the event and \<open>NO_DATA\<close> stay as they are. Every event made without data holds the
  same address, that of \<open>NO_DATA\<close>.
\<close>

theorem ManagedEvent_frozen:
  assumes "no_data < length s" and "h_frozen (s ! no_data)" and "h_props (s ! no_data) = []"
  shows "\<exists>this s'.
     construct_ManagedEvent no_data s name source data delegate inner_event noPropagation = Inr (this, s') \<and>
     this = length s \<and>
     s' = s @ [event_object no_data name source data delegate inner_event noPropagation] \<and>
     h_frozen (s' ! this) \<and>
     map_of (h_props (s' ! this)) ''data'' = Some (if truthy_h data then data else HRef no_data) \<and>
     (\<forall>k v. set_prop s' this k v = Inl (ThrowError (TypeError ''Cannot assign to read only property''))) \<and>
     (\<forall>k. delete_prop s' this k =
        (if k \<in> set [''name'', ''source'', ''data'', ''delegate'', ''inner'', ''noPropagation'']
         then Inl (ThrowError (TypeError ''Cannot delete property''))
         else Inr s')) \<and>
     (\<forall>ms. foldl apply_mutation s' ms ! this = s' ! this) \<and>
     (\<forall>ms. foldl apply_mutation s' ms ! no_data = \<lparr>h_props = [], h_frozen = True\<rparr>)"
proof -
  let ?e = "event_object no_data name source data delegate inner_event noPropagation"
  let ?s = "s @ [?e]"
  have c: "construct_ManagedEvent no_data s name source data delegate inner_event noPropagation =
      Inr (length s, ?s)"
    by (rule construct_ManagedEvent_result)
  have t: "length s < length ?s" by simp
  have at: "?s ! length s = ?e" by simp
  have fr: "h_frozen (?s ! length s)" by (simp add: event_object_def)
  have d: "map_of (h_props (?s ! length s)) ''data'' = Some (if truthy_h data then data else HRef no_data)"
    by (simp add: event_object_def)
  have sp: "\<forall>k v. set_prop ?s (length s) k v = Inl (ThrowError (TypeError ''Cannot assign to read only property''))"
    using fr by (simp add: set_prop_def)
  have ks: "fst ` set (h_props ?e) = set [''name'', ''source'', ''data'', ''delegate'', ''inner'', ''noPropagation'']"
    by (simp add: event_object_def)
  have dp: "delete_prop ?s (length s) k =
        (if k \<in> set [''name'', ''source'', ''data'', ''delegate'', ''inner'', ''noPropagation'']
         then Inl (ThrowError (TypeError ''Cannot delete property''))
         else Inr ?s)" for k
  proof (cases "k \<in> fst ` set (h_props ?e)")
    case True
    then show ?thesis using fr ks by (simp add: delete_prop_def)
  next
    case False
    then have "AList.delete k (h_props ?e) = h_props ?e" by (rule delete_id)
    then have "?s[length s := (?s ! length s)\<lparr>h_props := AList.delete k (h_props (?s ! length s))\<rparr>] = ?s"
      by simp
    then show ?thesis using False ks unfolding delete_prop_def at
      by (simp del: set_simps)
  qed
  have m1: "\<forall>ms. foldl apply_mutation ?s ms ! length s = ?s ! length s"
    using mutations_frozen [OF t fr] by blast
  have n: "no_data < length ?s" "h_frozen (?s ! no_data)" "?s ! no_data = \<lparr>h_props = [], h_frozen = True\<rparr>"
    using assms by (simp_all add: nth_append)
  have m2: "\<forall>ms. foldl apply_mutation ?s ms ! no_data = \<lparr>h_props = [], h_frozen = True\<rparr>"
    using mutations_frozen [OF n(1,2)] n(3) by simp
  show ?thesis
    using c fr d sp dp m1 m2 by blast
qed

theorem ManagedEvent_frozen_witness:
  "init_NO_DATA [] = (0, [\<lparr>h_props = [], h_frozen = True\<rparr>]) \<and>
   construct_ManagedEvent 0 [\<lparr>h_props = [], h_frozen = True\<rparr>]
      (HStr ''Click'') (HRef 5) HUndefined HUndefined HUndefined HUndefined =
     Inr (1, [\<lparr>h_props = [], h_frozen = True\<rparr>,
              \<lparr>h_props = [(''name'', HStr ''Click''), (''source'', HRef 5), (''data'', HRef 0),
                          (''delegate'', HUndefined), (''inner'', HUndefined),
                          (''noPropagation'', HUndefined)],
               h_frozen = True\<rparr>])"
proof -
  let ?s = "[\<lparr>h_props = [], h_frozen = True\<rparr>]"
  have i: "init_NO_DATA [] = (0, ?s)"
    by (simp add: init_NO_DATA_def new_object_def Object_freeze_def)
  have a: "0 < length ?s" "h_frozen (?s ! 0)" "h_props (?s ! 0) = []" by simp_all
  show ?thesis
    using ManagedEvent_frozen [OF a, of "HStr ''Click''" "HRef 5" HUndefined HUndefined HUndefined HUndefined] i
    by (auto simp: event_object_def truthy_h_def)
qed

section \<open>Delegates along the chain of inner events\<close>

text \<open>
  C7. \<open>findDelegate\<close> returns the delegate of the first event in the chain
  \<open>e, e.inner, e.inner.inner, ...\<close> whose delegate is an instance of the class, and
  \<open>undefined\<close> exactly when no event of the chain has such a delegate.
\<close>

theorem findDelegate_first_in_chain:
  "findDelegate instance_of e = first_delegate instance_of e \<and>
   (findDelegate instance_of e = None) = list_all (\<lambda>x. \<not> delegate_matches instance_of x) (inner_chain e)"
proof (induction instance_of e rule: findDelegate.induct)
  case (1 instance_of name source data delegate inner_event noPropagation)
  show ?case
  proof (cases "case delegate of Some d \<Rightarrow> instance_of d | None \<Rightarrow> False")
    case True
    then show ?thesis
      by (auto simp: first_delegate_def delegate_matches_def split: option.splits)
  next
    case False
    show ?thesis
    proof (cases inner_event)
      case None
      then show ?thesis using False
        by (auto simp: first_delegate_def delegate_matches_def split: option.splits)
    next
      case (Some e)
      then show ?thesis using False "1.IH" [OF False Some]
        by (auto simp: first_delegate_def delegate_matches_def split: option.splits)
    qed
  qed
qed


theorem findDelegate_first_in_chain_witness:
  "findDelegate (\<lambda>x. x = 7)
     (ManagedEvent ''Outer'' 1 [] (Some 3)
        (Some (ManagedEvent ''Middle'' 1 [] (Some 7)
           (Some (ManagedEvent ''Click'' 1 [] (Some 7) None None)) None)) None) = Some 7 \<and>
   findDelegate (\<lambda>x. x = 9)
     (ManagedEvent ''Outer'' 1 [] (Some 3)
        (Some (ManagedEvent ''Click'' 1 [] None None None)) None) = None"
  using findDelegate_first_in_chain [of "\<lambda>x. x = 7"
      "ManagedEvent ''Outer'' 1 [] (Some 3)
        (Some (ManagedEvent ''Middle'' 1 [] (Some 7)
           (Some (ManagedEvent ''Click'' 1 [] (Some 7) None None)) None)) None"]
    findDelegate_first_in_chain [of "\<lambda>x. x = 9"
      "ManagedEvent ''Outer'' 1 [] (Some 3)
        (Some (ManagedEvent ''Click'' 1 [] None None None)) None"]
  by (simp add: first_delegate_def delegate_matches_def)

section \<open>Applying a preset\<close>

lemma loop_thrown:
  "snd (snd (applyViewPreset_loop this preset events)) =
     (case List.find bad_entry preset of
        None \<Rightarrow> None
      | Some (p, v) \<Rightarrow> Some (ThrowError (InvalidArgument (''preset.'' @ p))))"
proof (induction this preset events rule: applyViewPreset_loop.induct)
  case (1 this events)
  show ?case by simp
next
  case (2 this p v preset events)
  show ?case
  proof (cases "v = Plain VUndefined")
    case True
    then show ?thesis using 2 by (simp add: bad_entry_def)
  next
    case False
    show ?thesis
    proof (cases "is_event_key p")
      case True
      then show ?thesis using False 2
        by (cases "bad_remap (drop 2 p) v") (simp_all add: bad_entry_def invalidArgErr_def Let_def)
    next
      case k: False
      then show ?thesis using False 2
        by (cases v) (simp_all add: bad_entry_def)
    qed
  qed
qed

lemma loop_emit: "v_emit (fst (applyViewPreset_loop this preset events)) = v_emit this"
proof (induction this preset events rule: applyViewPreset_loop.induct)
  case (1 this events)
  show ?case by simp
next
  case (2 this p v preset events)
  show ?case
  proof (cases "v = Plain VUndefined")
    case True
    then show ?thesis using 2 by simp
  next
    case False
    show ?thesis
    proof (cases "is_event_key p")
      case True
      then show ?thesis using False 2
        by (cases "bad_remap (drop 2 p) v") (simp_all add: Let_def)
    next
      case k: False
      then show ?thesis using False 2
        by (cases v) simp_all
    qed
  qed
qed

lemma loop_id: "v_id (fst (applyViewPreset_loop this preset events)) = v_id this"
proof (induction this preset events rule: applyViewPreset_loop.induct)
  case (1 this events)
  show ?case by simp
next
  case (2 this p v preset events)
  show ?case
  proof (cases "v = Plain VUndefined")
    case True
    then show ?thesis using 2 by simp
  next
    case False
    show ?thesis
    proof (cases "is_event_key p")
      case True
      then show ?thesis using False 2
        by (cases "bad_remap (drop 2 p) v") (simp_all add: Let_def)
    next
      case k: False
      then show ?thesis using False 2
        by (cases v) simp_all
    qed
  qed
qed

lemma loop_events:
  assumes "\<not> list_ex bad_entry preset"
  shows "(fst (snd (applyViewPreset_loop this preset events)) = None) = (events = None \<and> remaps preset = []) \<and>
         map_of (table_of (fst (snd (applyViewPreset_loop this preset events)))) =
           map_of (table_of events) ++ map_of (rev (remaps preset))"
  using assms
proof (induction this preset events rule: applyViewPreset_loop.induct)
  case (1 this events)
  show ?case by simp
next
  case (2 this p v preset events)
  have nb: "\<not> list_ex bad_entry preset" and np: "\<not> bad_entry (p, v)" using "2.prems" by simp_all
  show ?case
  proof (cases "v = Plain VUndefined")
    case True
    then show ?thesis using 2 nb by simp
  next
    case False
    show ?thesis
    proof (cases "is_event_key p")
      case True
      then have g: "\<not> bad_remap (drop 2 p) v" using np False by (simp add: bad_entry_def)
      let ?s = "case v of Plain (VStr s) \<Rightarrow> s | _ \<Rightarrow> []"
      let ?ev = "Some (AList.update (drop 2 p) ?s (case events of None \<Rightarrow> [] | Some t \<Rightarrow> t))"
      have ih: "(fst (snd (applyViewPreset_loop this preset ?ev)) = None) = (?ev = None \<and> remaps preset = []) \<and>
         map_of (table_of (fst (snd (applyViewPreset_loop this preset ?ev)))) =
           map_of (table_of ?ev) ++ map_of (rev (remaps preset))"
        using "2.IH"(2) [OF False True refl g nb] by simp
      have m: "map_of (table_of ?ev) ++ map_of (rev (remaps preset)) =
          map_of (table_of events) ++ map_of (rev (remaps ((p, v) # preset)))"
        using True False
        by (auto simp: table_of_def update_conv' map_add_def fun_eq_iff split: option.splits)
      show ?thesis using True False g ih m by (simp add: Let_def)
    next
      case k: False
      then show ?thesis using False 2 nb
        by (cases v) simp_all
    qed
  qed
qed

lemma event_key_on: "is_event_key p \<Longrightarrow> p = ''on'' @ drop 2 p"
  by (auto simp: is_event_key_def split: list.splits)

lemma remaps_keys:
  "k \<in> fst ` set (remaps preset) \<Longrightarrow> ''on'' @ k \<in> fst ` set preset"
proof (induction preset)
  case Nil
  then show ?case by simp
next
  case (Cons pv preset)
  obtain p v where pv: "pv = (p, v)" by (cases pv)
  show ?case
  proof (cases "v \<noteq> Plain VUndefined \<and> is_event_key p")
    case True
    then have e: "p = ''on'' @ drop 2 p" using event_key_on by blast
    have "k = drop 2 p \<or> k \<in> fst ` set (remaps preset)"
      using Cons.prems pv True by auto
    then show ?thesis
    proof
      assume "k = drop 2 p"
      then have "''on'' @ k = p" using e by simp
      then show ?thesis using pv by simp
    next
      assume "k \<in> fst ` set (remaps preset)"
      then have "''on'' @ k \<in> fst ` set preset" by (rule Cons.IH)
      then show ?thesis by simp
    qed
  next
    case False
    then have "k \<in> fst ` set (remaps preset)" using Cons.prems pv by auto
    then have "''on'' @ k \<in> fst ` set preset" by (rule Cons.IH)
    then show ?thesis by simp
  qed
qed

lemma remaps_distinct: "distinct (map fst preset) \<Longrightarrow> distinct (map fst (remaps preset))"
proof (induction preset)
  case Nil
  then show ?case by simp
next
  case (Cons pv preset)
  obtain p v where pv: "pv = (p, v)" by (cases pv)
  show ?case
  proof (cases "v \<noteq> Plain VUndefined \<and> is_event_key p")
    case True
    then have e: "p = ''on'' @ drop 2 p" using event_key_on by blast
    have "drop 2 p \<notin> fst ` set (remaps preset)"
    proof
      assume "drop 2 p \<in> fst ` set (remaps preset)"
      then have "''on'' @ drop 2 p \<in> fst ` set preset" by (rule remaps_keys)
      then show False using e Cons.prems pv by auto
    qed
    then show ?thesis using Cons pv True by auto
  next
    case False
    then show ?thesis using Cons pv by auto
  qed
qed

lemma remaps_member:
  "(p, Plain (VStr s)) \<in> set preset \<Longrightarrow> is_event_key p \<Longrightarrow> (drop 2 p, s) \<in> set (remaps preset)"
  by (induction preset) auto

lemma remaps_lookup:
  assumes "distinct (map fst preset)" "(p, Plain (VStr s)) \<in> set preset" "is_event_key p"
  shows "map_of (rev (remaps preset)) (drop 2 p) = Some s"
proof -
  have "distinct (map fst (rev (remaps preset)))"
    using remaps_distinct [OF assms(1)] by (simp add: rev_map [symmetric])
  moreover have "(drop 2 p, s) \<in> set (rev (remaps preset))"
    using remaps_member [OF assms(2,3)] by simp
  ultimately show ?thesis by (rule map_of_is_SomeI)
qed


lemma applyViewPreset_thrown:
  "snd (applyViewPreset this preset) =
     (case List.find bad_entry preset of
        None \<Rightarrow> None
      | Some (p, v) \<Rightarrow> Some (ThrowError (InvalidArgument (''preset.'' @ p))))"
proof -
  obtain this' events x where l: "applyViewPreset_loop this preset None = (this', events, x)"
    by (cases "applyViewPreset_loop this preset None") auto
  have "snd (applyViewPreset this preset) = x"
    using l by (cases x; cases events) (simp_all add: applyViewPreset_def)
  then show ?thesis using loop_thrown [of this preset None] l by simp
qed

lemma applyViewPreset_emit:
  assumes "\<not> list_ex bad_entry preset"
  shows "v_id (fst (applyViewPreset this preset)) = v_id this \<and>
     (if remaps preset = [] then v_emit (fst (applyViewPreset this preset)) = v_emit this
      else \<exists>t. v_emit (fst (applyViewPreset this preset)) = InterceptEmit t (v_emit this) \<and>
               map_of t = map_of (rev (remaps preset)))"
proof -
  obtain this' events x where l: "applyViewPreset_loop this preset None = (this', events, x)"
    by (cases "applyViewPreset_loop this preset None") auto
  have "List.find bad_entry preset = None"
    using assms by (simp add: find_None_iff list_ex_iff)
  then have x: "x = None"
    using loop_thrown [of this preset None] l by simp
  have e: "v_emit this' = v_emit this" "v_id this' = v_id this"
    using loop_emit [of this preset None] loop_id [of this preset None] l by simp_all
  have t: "(events = None) = (remaps preset = [])" "map_of (table_of events) = map_of (rev (remaps preset))"
    using loop_events [OF assms, of this None] l by (simp_all add: table_of_def)
  show ?thesis
  proof (cases events)
    case None
    then show ?thesis using l x e t by (simp add: applyViewPreset_def)
  next
    case (Some t')
    then show ?thesis using l x e t by (simp add: applyViewPreset_def table_of_def)
  qed
qed

text \<open>
  C4. \<open>applyViewPreset\<close> throws exactly when some entry of the preset is a bad remap: its
  value is not \<open>undefined\<close>, its key is \<open>on\<close> followed by a character that is not a
  lowercase letter, and its value is not a string, is the empty string or is the name
  of the event (the key from index 2). The exception is the \<open>InvalidArgument\<close> error for
  the first such key. When there is none (and the keys are distinct), every remap key
  with a string value is recorded: the wrapper's table maps the event name to it.
\<close>

theorem applyViewPreset_InvalidArgument:
  "snd (applyViewPreset this preset) =
     (case List.find bad_entry preset of
        None \<Rightarrow> None
      | Some (p, v) \<Rightarrow> Some (ThrowError (InvalidArgument (''preset.'' @ p)))) \<and>
   (snd (applyViewPreset this preset) \<noteq> None) = list_ex bad_entry preset \<and>
   bad_entry (key, v) =
     (v \<noteq> Plain VUndefined \<and> is_event_key key \<and>
      (case v of Plain (VStr s) \<Rightarrow> s = [] \<or> s = drop 2 key | _ \<Rightarrow> True)) \<and>
   is_event_key key =
     (\<exists>c rest. key = CHR ''o'' # CHR ''n'' # c # rest \<and>
        \<not> ((of_char CHR ''a'' :: nat) \<le> of_char c \<and> (of_char c :: nat) \<le> of_char CHR ''z'')) \<and>
   (\<not> list_ex bad_entry preset \<and> distinct (map fst preset) \<and>
    (p, Plain (VStr target)) \<in> set preset \<and> is_event_key p \<longrightarrow>
      target \<noteq> [] \<and> target \<noteq> drop 2 p \<and>
      (\<exists>t. v_emit (fst (applyViewPreset this preset)) = InterceptEmit t (v_emit this) \<and>
           map_of t (drop 2 p) = Some target))"
proof -
  have a: "snd (applyViewPreset this preset) =
     (case List.find bad_entry preset of
        None \<Rightarrow> None
      | Some (p, v) \<Rightarrow> Some (ThrowError (InvalidArgument (''preset.'' @ p))))"
    by (rule applyViewPreset_thrown)
  have b: "(snd (applyViewPreset this preset) \<noteq> None) = list_ex bad_entry preset"
  proof (cases "List.find bad_entry preset")
    case None
    then have "\<not> list_ex bad_entry preset" by (auto simp: find_None_iff list_ex_iff)
    then show ?thesis unfolding a None by simp
  next
    case (Some pv)
    then have "pv \<in> set preset \<and> bad_entry pv"
      by (auto simp: find_Some_iff)
    then have "list_ex bad_entry preset" by (auto simp: list_ex_iff)
    then show ?thesis unfolding a Some by (simp split: prod.splits)
  qed
  have c: "bad_entry (key, v) =
     (v \<noteq> Plain VUndefined \<and> is_event_key key \<and>
      (case v of Plain (VStr s) \<Rightarrow> s = [] \<or> s = drop 2 key | _ \<Rightarrow> True))"
    by (auto simp: bad_entry_def bad_remap_def split: pvalue.splits jsval.splits)
  have d: "is_event_key key =
     (\<exists>c rest. key = CHR ''o'' # CHR ''n'' # c # rest \<and>
        \<not> ((of_char CHR ''a'' :: nat) \<le> of_char c \<and> (of_char c :: nat) \<le> of_char CHR ''z''))"
    by (auto simp: is_event_key_def split: list.splits)
  have e: "\<not> list_ex bad_entry preset \<and> distinct (map fst preset) \<and>
    (p, Plain (VStr target)) \<in> set preset \<and> is_event_key p \<longrightarrow>
      target \<noteq> [] \<and> target \<noteq> drop 2 p \<and>
      (\<exists>t. v_emit (fst (applyViewPreset this preset)) = InterceptEmit t (v_emit this) \<and>
           map_of t (drop 2 p) = Some target)"
  proof
    assume h: "\<not> list_ex bad_entry preset \<and> distinct (map fst preset) \<and>
      (p, Plain (VStr target)) \<in> set preset \<and> is_event_key p"
    then have "\<not> bad_entry (p, Plain (VStr target))" by (auto simp: list_ex_iff)
    then have g: "target \<noteq> [] \<and> target \<noteq> drop 2 p"
      using h by (auto simp: bad_entry_def bad_remap_def)
    have l: "map_of (rev (remaps preset)) (drop 2 p) = Some target"
      using h remaps_lookup by blast
    then have "remaps preset \<noteq> []" by auto
    then obtain t where "v_emit (fst (applyViewPreset this preset)) = InterceptEmit t (v_emit this)"
      "map_of t = map_of (rev (remaps preset))"
      using applyViewPreset_emit [of preset this] h by auto
    then show "target \<noteq> [] \<and> target \<noteq> drop 2 p \<and>
      (\<exists>t. v_emit (fst (applyViewPreset this preset)) = InterceptEmit t (v_emit this) \<and>
           map_of t (drop 2 p) = Some target)"
      using g l by auto
  qed
  show ?thesis using a b c d e by blast
qed



theorem applyViewPreset_InvalidArgument_witness:
  "applyViewPreset view0 [(''text'', Plain (VStr ''Remove'')), (''onClick'', Plain (VStr ''Click''))] =
     (view0\<lparr>v_props := [(''text'', VStr ''Remove'')]\<rparr>,
      Some (ThrowError (InvalidArgument ''preset.onClick''))) \<and>
   snd (applyViewPreset view0 click_preset) = None \<and>
   (\<exists>t. v_emit (fst (applyViewPreset view0 click_preset)) = InterceptEmit t OriginalEmit \<and>
        map_of t ''Click'' = Some ''+RemoveItem'')"
proof -
  let ?bad = "[(''text'', Plain (VStr ''Remove'')), (''onClick'', Plain (VStr ''Click''))]"
  have k: "is_event_key ''onClick''" "\<not> is_event_key ''text''" by (simp_all add: is_event_key_def)
  have b: "bad_entry (''onClick'', Plain (VStr ''Click''))" "\<not> bad_entry (''text'', Plain (VStr ''Remove''))"
    "\<not> bad_entry (''onClick'', Plain (VStr ''+RemoveItem''))"
    using k by (simp_all add: bad_entry_def bad_remap_def)
  have f: "applyViewPreset view0 ?bad =
     (view0\<lparr>v_props := [(''text'', VStr ''Remove'')]\<rparr>, Some (ThrowError (InvalidArgument ''preset.onClick'')))"
    using k by (simp add: applyViewPreset_def view0_def bad_remap_def invalidArgErr_def)
  have g: "\<not> list_ex bad_entry click_preset" "distinct (map fst click_preset)"
    "(''onClick'', Plain (VStr ''+RemoveItem'')) \<in> set click_preset"
    using b by (simp_all add: click_preset_def)
  have h: "List.find bad_entry click_preset = None"
    using b by (simp add: click_preset_def)
  show ?thesis
    using applyViewPreset_InvalidArgument [where this = view0 and preset = click_preset
        and p = "''onClick''" and target = "''+RemoveItem''"] f g k h
    by (simp add: view0_def)
qed


section \<open>The emit wrapper\<close>

lemma call_original:
  "call_emit orig this te OriginalEmit s event data = Some (orig s event data)"
  by (subst call_emit.simps) simp

lemma call_intercept:
  "call_emit orig this te (InterceptEmit events emit0) s event data =
     (let e = (case event of Inl name \<Rightarrow> new_ManagedEvent name this data None None None
                    | Inr e' \<Rightarrow> e');
          data' = (case event of Inl name \<Rightarrow> data | Inr e' \<Rightarrow> Some (ev_data e'));
          v = (case map_of events (ev_name e) of None \<Rightarrow> [] | Some t \<Rightarrow> t)
      in if v = [] then call_emit orig this te emit0 s (Inr e) None
         else
           Option.bind
             (if hd v = CHR ''+'' then call_emit orig this te emit0 s (Inr e) None else Some s)
             (\<lambda>s1. call_emit orig this te te s1
                     (Inr (intercept_event this (if hd v = CHR ''+'' then tl v else v) e data'))
                     None))"
  by (subst call_emit.simps) simp

lemma call_not_remapped:
  assumes "map_of events (ev_name e) = None"
  shows "call_emit orig this te (InterceptEmit events OriginalEmit) s (Inr e) d = Some (orig s (Inr e) None)"
  using assms by (simp add: call_intercept call_original)

lemma name_new [simp]: "ev_name (new_ManagedEvent n src d del inn np) = n"
  by (simp add: new_ManagedEvent_def)


lemma indexOf_none: "c \<notin> set v \<Longrightarrow> indexOf v c = - 1"
  by (simp add: indexOf_def)

lemma takeWhile_first: "c \<notin> set pre \<Longrightarrow> takeWhile (\<lambda>x. x \<noteq> c) (pre @ c # post) = pre"
  by (induction pre) auto

lemma indexOf_first: "c \<notin> set pre \<Longrightarrow> indexOf (pre @ c # post) c = int (length pre)"
  by (simp add: indexOf_def takeWhile_first)

lemma intercept_plain:
  "CHR '':'' \<notin> set v \<Longrightarrow>
   intercept_event this v e data =
     ManagedEvent v this (case data of Some d \<Rightarrow> d | None \<Rightarrow> NO_DATA) None (Some e) None"
  by (simp add: intercept_event_def indexOf_none new_ManagedEvent_def)

lemma intercept_colon:
  "CHR '':'' \<notin> set pre \<Longrightarrow> pre \<noteq> [] \<Longrightarrow>
   intercept_event this (pre @ CHR '':'' # post) e data =
     ManagedEvent pre this [(''target'', VStr post)] None (Some e) None"
  by (simp add: intercept_event_def indexOf_first new_ManagedEvent_def NO_DATA_def nat_add_distrib)

lemma intercept_colon0:
  "intercept_event this (CHR '':'' # rest) e data =
     ManagedEvent (CHR '':'' # rest) this (case data of Some d \<Rightarrow> d | None \<Rightarrow> NO_DATA) None (Some e) None"
  using indexOf_first [of "CHR '':''" "[]" rest]
  by (simp add: intercept_event_def new_ManagedEvent_def)






text \<open>
  C9. For a target (after its \<open>+\<close> is gone) whose first colon is at an index above 0,
  the new event is named by the part before the colon and its data is exactly
  \<open>{ target: <the part after it> }\<close>, whatever data came in. A target that starts with a
  colon, or has none, names the new event as a whole, and the data that came in is kept
  (\<open>NO_DATA\<close> if there was none). The wrapper emits this event, with the data of the
  incoming event (or the \<open>data\<close> argument beside a name), through \<open>this.emit\<close>, after the
  original event where the target began with \<open>+\<close>.
\<close>

theorem intercept_target_data:
  "(CHR '':'' \<notin> set pre \<and> pre \<noteq> [] \<longrightarrow>
      intercept_event this (pre @ CHR '':'' # post) e data =
        ManagedEvent pre this [(''target'', VStr post)] None (Some e) None) \<and>
   intercept_event this (CHR '':'' # rest) e data =
     ManagedEvent (CHR '':'' # rest) this (case data of Some d \<Rightarrow> d | None \<Rightarrow> NO_DATA)
       None (Some e) None \<and>
   (CHR '':'' \<notin> set v \<longrightarrow>
      intercept_event this v e data =
        ManagedEvent v this (case data of Some d \<Rightarrow> d | None \<Rightarrow> NO_DATA) None (Some e) None) \<and>
   (map_of events (ev_name e) = Some target \<and> target \<noteq> [] \<longrightarrow>
      call_emit orig this this_emit (InterceptEmit events emit0) s (Inr e) data =
        Option.bind
          (if hd target = CHR ''+'' then call_emit orig this this_emit emit0 s (Inr e) None else Some s)
          (\<lambda>s1. call_emit orig this this_emit this_emit s1
                  (Inr (intercept_event this (if hd target = CHR ''+'' then tl target else target) e
                          (Some (ev_data e))))
                  None)) \<and>
   (map_of events name = Some target \<and> target \<noteq> [] \<longrightarrow>
      call_emit orig this this_emit (InterceptEmit events emit0) s (Inl name) data =
        Option.bind
          (if hd target = CHR ''+''
           then call_emit orig this this_emit emit0 s
                  (Inr (new_ManagedEvent name this data None None None)) None
           else Some s)
          (\<lambda>s1. call_emit orig this this_emit this_emit s1
                  (Inr (intercept_event this (if hd target = CHR ''+'' then tl target else target)
                          (new_ManagedEvent name this data None None None) data))
                  None))"
  by (simp add: intercept_colon intercept_colon0 intercept_plain call_intercept Let_def)

theorem intercept_target_data_witness:
  "emit (deliver 1)
     (view0\<lparr>v_emit := InterceptEmit [(''Click'', ''+Select:row:1''), (''Press'', '':odd'')] OriginalEmit\<rparr>)
     [] (Inr (ManagedEvent ''Click'' 1 [(''x'', VNum (Fin 1))] None None None)) None =
     Some [ManagedEvent ''Click'' 1 [(''x'', VNum (Fin 1))] None None None,
           ManagedEvent ''Select'' 1 [(''target'', VStr ''row:1'')] None
             (Some (ManagedEvent ''Click'' 1 [(''x'', VNum (Fin 1))] None None None)) None] \<and>
   emit (deliver 1)
     (view0\<lparr>v_emit := InterceptEmit [(''Click'', ''+Select:row:1''), (''Press'', '':odd'')] OriginalEmit\<rparr>)
     [] (Inr (ManagedEvent ''Press'' 1 [(''x'', VNum (Fin 1))] None None None)) None =
     Some [ManagedEvent '':odd'' 1 [(''x'', VNum (Fin 1))] None
             (Some (ManagedEvent ''Press'' 1 [(''x'', VNum (Fin 1))] None None None)) None]"
proof -
  let ?t = "[(''Click'', ''+Select:row:1''), (''Press'', '':odd'')]"
  let ?w = "InterceptEmit ?t OriginalEmit"
  let ?click = "ManagedEvent ''Click'' 1 [(''x'', VNum (Fin 1))] None None None"
  let ?press = "ManagedEvent ''Press'' 1 [(''x'', VNum (Fin 1))] None None None"
  have c: "CHR '':'' \<notin> set ''Select'' \<and> ''Select'' \<noteq> []" by simp
  have m: "map_of ?t (ev_name ?click) = Some ''+Select:row:1'' \<and> ''+Select:row:1'' \<noteq> []"
    "map_of ?t (ev_name ?press) = Some '':odd'' \<and> '':odd'' \<noteq> []"
    by simp_all
  have n: "map_of ?t ''Select'' = None" "map_of ?t '':odd'' = None" by simp_all
  have i1: "intercept_event 1 ''Select:row:1'' ?click (Some (ev_data ?click)) =
      ManagedEvent ''Select'' 1 [(''target'', VStr ''row:1'')] None (Some ?click) None"
    using intercept_target_data [where pre = "''Select''" and post = "''row:1''" and this = 1
        and e = ?click and data = "Some (ev_data ?click)", THEN conjunct1] c
    by simp
  have i2: "intercept_event 1 '':odd'' ?press (Some (ev_data ?press)) =
      ManagedEvent '':odd'' 1 [(''x'', VNum (Fin 1))] None (Some ?press) None"
    using intercept_target_data [where rest = "''odd''" and this = 1
        and e = ?press and data = "Some (ev_data ?press)", THEN conjunct2, THEN conjunct1]
    by simp
  show ?thesis
    using intercept_target_data [where this = 1 and e = ?click and data = None and events = ?t
        and target = "''+Select:row:1''" and orig = "deliver 1" and this_emit = ?w
        and ?emit0.0 = OriginalEmit and s = "[]",
        THEN conjunct2, THEN conjunct2, THEN conjunct2, THEN conjunct1]
      intercept_target_data [where this = 1 and e = ?press and data = None and events = ?t
        and target = "'':odd''" and orig = "deliver 1" and this_emit = ?w
        and ?emit0.0 = OriginalEmit and s = "[]",
        THEN conjunct2, THEN conjunct2, THEN conjunct2, THEN conjunct1]
      m n i1 i2
    by (simp add: emit_def view0_def call_original call_not_remapped deliver_def)
qed

end
